theory Spec2Isabelle
  imports Main "HOL-Library.Char_ord" "HOL-Library.List_Lexorder" "HOL-Library.Multiset"
begin

section \<open>Go values used by the program\<close>

text \<open>
  A Go \<open>string\<close> is a sequence of bytes, which is what \<open>string\<close> (a list of 8-bit
  \<open>char\<close>) is here. A Go \<open>error\<close> is represented by the text its \<open>Error()\<close> method
  returns. A run-time panic is a value of \<open>go_panic\<close>; a function that can panic returns
  \<open>go_panic + 'a\<close>.
\<close>

type_synonym go_error = string

datatype go_panic = IndexOutOfRange int nat

definition nl :: string where
  "nl = [CHR 0x0A]"

definition sq :: string where
  "sq = [CHR 0x27]"

text \<open>\<open>strings.ReplaceAll(s, old, new)\<close> for a one-byte \<open>old\<close>, the only way the program calls it.\<close>

definition ReplaceAll :: "string \<Rightarrow> char \<Rightarrow> string \<Rightarrow> string" where
  "ReplaceAll s old new = concat (map (\<lambda>c. if c = old then new else [c]) s)"

text \<open>The verb \<open>%d\<close> of \<open>fmt.Sprintf\<close>: decimal digits, with a minus sign below zero.\<close>

fun decimal :: "nat \<Rightarrow> string" where
  "decimal n = (if n < 10 then [''0123456789'' ! n]
                else decimal (n div 10) @ [''0123456789'' ! (n mod 10)])"

definition fmt_d :: "int \<Rightarrow> string" where
  "fmt_d i = (if i < 0 then ''-'' @ decimal (nat (- i)) else decimal (nat i))"

subsection \<open>Package \<open>time\<close>\<close>

text \<open>
  A \<open>time.Time\<close> as far as the program reads it: the seconds since the Unix epoch, and the
  offset east of UTC, in seconds, of the zone the value is read in (\<open>time.Now()\<close> carries the
  process's local zone). \<open>Unix()\<close> ignores the zone. \<open>Second()\<close> is the second within the
  minute of the zone's wall clock: Go computes it as the zone-shifted count of seconds
  modulo 60 (the shift between Go's internal epoch and the Unix epoch is a whole number
  of days; Go's clock has no leap seconds).
\<close>

record Time =
  unixSec :: int
  zoneOffset :: int

definition Unix :: "Time \<Rightarrow> int" where
  "Unix t = unixSec t"

definition Second :: "Time \<Rightarrow> int" where
  "Second t = (unixSec t + zoneOffset t) mod 60"

subsection \<open>Package \<open>strings\<close>\<close>

definition HasPrefix :: "string \<Rightarrow> string \<Rightarrow> bool" where
  "HasPrefix s p = (length p \<le> length s \<and> take (length p) s = p)"

definition HasSuffix :: "string \<Rightarrow> string \<Rightarrow> bool" where
  "HasSuffix s p = (length p \<le> length s \<and> drop (length s - length p) s = p)"

text \<open>
  \<open>strings.TrimSpace\<close> removes the leading and the trailing white space, "as defined by
  Unicode". On the bytes of the string these are the six ASCII characters tab, line feed,
  vertical tab, form feed, carriage return and space, and the UTF-8 encodings of U+0085,
  U+00A0, U+1680, U+2000 to U+200A, U+2028, U+2029, U+202F, U+205F and U+3000.
\<close>

definition whiteSpace :: "string list" where
  "whiteSpace =
     [[CHR 0x09], [CHR 0x0A], [CHR 0x0B], [CHR 0x0C], [CHR 0x0D], [CHR 0x20],
      [CHR 0xC2, CHR 0x85], [CHR 0xC2, CHR 0xA0], [CHR 0xE1, CHR 0x9A, CHR 0x80],
      [CHR 0xE2, CHR 0x80, CHR 0x80], [CHR 0xE2, CHR 0x80, CHR 0x81],
      [CHR 0xE2, CHR 0x80, CHR 0x82], [CHR 0xE2, CHR 0x80, CHR 0x83],
      [CHR 0xE2, CHR 0x80, CHR 0x84], [CHR 0xE2, CHR 0x80, CHR 0x85],
      [CHR 0xE2, CHR 0x80, CHR 0x86], [CHR 0xE2, CHR 0x80, CHR 0x87],
      [CHR 0xE2, CHR 0x80, CHR 0x88], [CHR 0xE2, CHR 0x80, CHR 0x89],
      [CHR 0xE2, CHR 0x80, CHR 0x8A], [CHR 0xE2, CHR 0x80, CHR 0xA8],
      [CHR 0xE2, CHR 0x80, CHR 0xA9], [CHR 0xE2, CHR 0x80, CHR 0xAF],
      [CHR 0xE2, CHR 0x81, CHR 0x9F], [CHR 0xE3, CHR 0x80, CHR 0x80]]"

text \<open>
  The number of bytes of the white-space character a string starts (ends) with; 0 if it
  starts (ends) with none. Go decodes the first (last) rune and asks \<open>unicode.IsSpace\<close>;
  the rune is one of the characters above exactly when the string starts (ends) with its
  encoding.
\<close>

definition leadingSpace :: "string \<Rightarrow> nat" where
  "leadingSpace s = (case find (HasPrefix s) whiteSpace of Some w \<Rightarrow> length w | None \<Rightarrow> 0)"

definition trailingSpace :: "string \<Rightarrow> nat" where
  "trailingSpace s = (case find (HasSuffix s) whiteSpace of Some w \<Rightarrow> length w | None \<Rightarrow> 0)"

lemma leadingSpace_le: "leadingSpace s \<le> length s"
  by (auto simp: leadingSpace_def HasPrefix_def split: option.splits dest!: find_Some_iff[THEN iffD1])

lemma trailingSpace_le: "trailingSpace s \<le> length s"
  by (auto simp: trailingSpace_def HasSuffix_def split: option.splits dest!: find_Some_iff[THEN iffD1])

function TrimLeftSpace :: "string \<Rightarrow> string" where
  "TrimLeftSpace s =
     (if leadingSpace s = 0 then s else TrimLeftSpace (drop (leadingSpace s) s))"
  by pat_completeness auto
termination
proof (relation "measure length")
  fix s :: string
  assume "leadingSpace s \<noteq> 0"
  moreover have "leadingSpace s \<le> length s" by (rule leadingSpace_le)
  ultimately show "(drop (leadingSpace s) s, s) \<in> measure length" by simp
qed simp

function TrimRightSpace :: "string \<Rightarrow> string" where
  "TrimRightSpace s =
     (if trailingSpace s = 0 then s
      else TrimRightSpace (take (length s - trailingSpace s) s))"
  by pat_completeness auto
termination
proof (relation "measure length")
  fix s :: string
  assume "trailingSpace s \<noteq> 0"
  moreover have "trailingSpace s \<le> length s" by (rule trailingSpace_le)
  ultimately show "(take (length s - trailingSpace s) s, s) \<in> measure length" by simp
qed simp

declare TrimLeftSpace.simps [simp del] TrimRightSpace.simps [simp del]

definition TrimSpace :: "string \<Rightarrow> string" where
  "TrimSpace s = TrimRightSpace (TrimLeftSpace s)"


subsection \<open>Package \<open>unicode/utf8\<close>\<close>

definition byte :: "char \<Rightarrow> nat" where
  "byte c = of_char c"

definition RuneError :: nat where
  "RuneError = 0xFFFD"

text \<open>
  \<open>utf8.DecodeRuneInString\<close>: the first rune of the string and its width in bytes;
  \<open>(RuneError, 0)\<close> for the empty string and \<open>(RuneError, 1)\<close> where the bytes are not a
  well-formed encoding (a stray continuation byte, an overlong form, a surrogate, a value
  above U+10FFFF, a truncated sequence).
\<close>

definition acceptRange :: "nat \<Rightarrow> nat \<times> nat" where
  "acceptRange s0 =
     (if s0 = 0xE0 then (0xA0, 0xBF)
      else if s0 = 0xED then (0x80, 0x9F)
      else if s0 = 0xF0 then (0x90, 0xBF)
      else if s0 = 0xF4 then (0x80, 0x8F)
      else (0x80, 0xBF))"

definition continuation :: "char \<Rightarrow> bool" where
  "continuation c = (0x80 \<le> byte c \<and> byte c \<le> 0xBF)"

definition accepted :: "nat \<Rightarrow> char \<Rightarrow> bool" where
  "accepted s0 c1 = (fst (acceptRange s0) \<le> byte c1 \<and> byte c1 \<le> snd (acceptRange s0))"

definition DecodeRune :: "string \<Rightarrow> nat \<times> nat" where
  "DecodeRune s =
     (case s of [] \<Rightarrow> (RuneError, 0) | c0 # cs \<Rightarrow>
      let s0 = byte c0 in
      if s0 < 0x80 then (s0, 1)
      else if s0 < 0xC2 \<or> 0xF4 < s0 then (RuneError, 1)
      else if s0 < 0xE0 then
        (case cs of
           c1 # _ \<Rightarrow>
             if accepted s0 c1 then ((s0 mod 32) * 64 + byte c1 mod 64, 2)
             else (RuneError, 1)
         | _ \<Rightarrow> (RuneError, 1))
      else if s0 < 0xF0 then
        (case cs of
           c1 # c2 # _ \<Rightarrow>
             if accepted s0 c1 \<and> continuation c2
             then ((s0 mod 16) * 4096 + (byte c1 mod 64) * 64 + byte c2 mod 64, 3)
             else (RuneError, 1)
         | _ \<Rightarrow> (RuneError, 1))
      else
        (case cs of
           c1 # c2 # c3 # _ \<Rightarrow>
             if accepted s0 c1 \<and> continuation c2 \<and> continuation c3
             then ((s0 mod 8) * 262144 + (byte c1 mod 64) * 4096 + (byte c2 mod 64) * 64
                   + byte c3 mod 64, 4)
             else (RuneError, 1)
         | _ \<Rightarrow> (RuneError, 1)))"


lemma DecodeRune_size: "s \<noteq> [] \<Longrightarrow> 1 \<le> snd (DecodeRune s) \<and> snd (DecodeRune s) \<le> length s"
  by (cases s) (auto simp: DecodeRune_def Let_def split: list.splits)

text \<open>
  \<open>utf8.ValidString\<close>, and the string with each byte that starts no well-formed character
  replaced by the encoding of U+FFFD.
\<close>

function validUTF8 :: "string \<Rightarrow> bool" where
  "validUTF8 [] = True"
| "validUTF8 (c # cs) =
     (DecodeRune (c # cs) \<noteq> (RuneError, 1)
      \<and> validUTF8 (drop (snd (DecodeRune (c # cs))) (c # cs)))"
  by pat_completeness auto
termination
proof (relation "measure length")
  fix c :: char and cs :: string
  have "1 \<le> snd (DecodeRune (c # cs))"
    using DecodeRune_size [of "c # cs"] by simp
  then show "(drop (snd (DecodeRune (c # cs))) (c # cs), c # cs) \<in> measure length"
    by simp
qed simp

declare validUTF8.simps(2) [simp del]

function toValidUTF8 :: "string \<Rightarrow> string" where
  "toValidUTF8 [] = []"
| "toValidUTF8 (c # cs) =
     (if DecodeRune (c # cs) = (RuneError, 1) then
        [CHR 0xEF, CHR 0xBF, CHR 0xBD] @ toValidUTF8 cs
      else
        take (snd (DecodeRune (c # cs))) (c # cs)
          @ toValidUTF8 (drop (snd (DecodeRune (c # cs))) (c # cs)))"
  by pat_completeness auto
termination
proof (relation "measure length")
  fix c :: char and cs :: string
  have "1 \<le> snd (DecodeRune (c # cs))"
    using DecodeRune_size [of "c # cs"] by simp
  then show "(drop (snd (DecodeRune (c # cs))) (c # cs), c # cs) \<in> measure length"
    by simp
qed simp_all

declare toValidUTF8.simps(2) [simp del]

subsection \<open>Package \<open>encoding/json\<close>: writing\<close>

definition dq :: string where
  "dq = [CHR 0x22]"

definition bs :: string where
  "bs = [CHR 0x5C]"

text \<open>
  How the encoder writes a Go string: between double quotes; the bytes from \<open>0x20\<close> to
  \<open>0x7F\<close> as they are, except the double quote, the backslash and the three characters
  escaped for HTML; the other ASCII bytes by a two-character escape or by the six-character
  escape with four hexadecimal digits; a well-formed multi-byte character as it is, except
  U+2028 and U+2029; and the escape of U+FFFD in place of each byte that does not start a
  well-formed character.
\<close>

definition htmlSafe :: "char \<Rightarrow> bool" where
  "htmlSafe c = (0x20 \<le> byte c \<and> byte c < 0x80 \<and> c \<noteq> CHR 0x22 \<and> c \<noteq> CHR ''&''
                 \<and> c \<noteq> CHR ''<'' \<and> c \<noteq> CHR ''>'' \<and> c \<noteq> CHR 0x5C)"

definition hex :: "nat \<Rightarrow> char" where
  "hex k = ''0123456789abcdef'' ! k"

definition escapeByte :: "char \<Rightarrow> string" where
  "escapeByte c =
     (if c = CHR 0x5C \<or> c = CHR 0x22 then bs @ [c]
      else if c = CHR 0x08 then bs @ ''b''
      else if c = CHR 0x0C then bs @ ''f''
      else if c = CHR 0x0A then bs @ ''n''
      else if c = CHR 0x0D then bs @ ''r''
      else if c = CHR 0x09 then bs @ ''t''
      else bs @ ''u00'' @ [hex (byte c div 16), hex (byte c mod 16)])"

function appendStringBody :: "string \<Rightarrow> string" where
  "appendStringBody [] = []"
| "appendStringBody (c # cs) =
     (if byte c < 0x80 then
        (if htmlSafe c then [c] else escapeByte c) @ appendStringBody cs
      else if DecodeRune (c # cs) = (RuneError, 1) then
        bs @ ''ufffd'' @ appendStringBody cs
      else if fst (DecodeRune (c # cs)) = 0x2028 \<or> fst (DecodeRune (c # cs)) = 0x2029 then
        bs @ ''u202'' @ [hex (fst (DecodeRune (c # cs)) mod 16)]
          @ appendStringBody (drop (snd (DecodeRune (c # cs))) (c # cs))
      else
        take (snd (DecodeRune (c # cs))) (c # cs)
          @ appendStringBody (drop (snd (DecodeRune (c # cs))) (c # cs)))"
  by pat_completeness auto
termination
proof (relation "measure length")
  fix c :: char and cs :: string
  have "1 \<le> snd (DecodeRune (c # cs))"
    using DecodeRune_size [of "c # cs"] by simp
  then show "(drop (snd (DecodeRune (c # cs))) (c # cs), c # cs) \<in> measure length"
    by simp
  then show "(drop (snd (DecodeRune (c # cs))) (c # cs), c # cs) \<in> measure length" .
qed simp_all

definition appendString :: "string \<Rightarrow> string" where
  "appendString s = dq @ appendStringBody s @ dq"

subsection \<open>Package \<open>path/filepath\<close>\<close>

text \<open>\<open>filepath.Ext\<close>: the suffix from the last dot of the last element of the path, with
  \<open>/\<close> as the separator; empty if there is no dot.\<close>

fun extFrom :: "string \<Rightarrow> string \<Rightarrow> string" where
  "extFrom [] suffix = []"
| "extFrom (c # before) suffix =
     (if c = CHR ''/'' then []
      else if c = CHR ''.'' then c # suffix
      else extFrom before (c # suffix))"

definition Ext :: "string \<Rightarrow> string" where
  "Ext path = extFrom (rev path) []"

subsection \<open>Library routines left open\<close>

text \<open>
  The routines of the libraries that are not spelled out: the base32 decoder (an error,
  or the decoded bytes), the Unicode lower-casing of a string that is not pure ASCII, and
  \<open>filepath.Dir\<close> and \<open>filepath.Join\<close>.
\<close>

record Lib =
  base32_DecodeString :: "string \<Rightarrow> go_error + string"
  unicode_ToLower :: "string \<Rightarrow> string"
  filepath_Dir :: "string \<Rightarrow> string"
  filepath_Join :: "string \<Rightarrow> string \<Rightarrow> string"

text \<open>\<open>strings.ToLower\<close>: on a string of ASCII bytes, the letters A to Z become a to z.\<close>

definition asciiLower :: "char \<Rightarrow> char" where
  "asciiLower c =
     (case map_of (zip ''ABCDEFGHIJKLMNOPQRSTUVWXYZ'' ''abcdefghijklmnopqrstuvwxyz'') c of
        Some l \<Rightarrow> l
      | None \<Rightarrow> c)"

definition ToLower :: "Lib \<Rightarrow> string \<Rightarrow> string" where
  "ToLower lib s =
     (if list_all (\<lambda>c. byte c < 0x80) s then map asciiLower s else unicode_ToLower lib s)"

subsection \<open>Package \<open>os\<close>\<close>

text \<open>
  The file system as the program meets it. \<open>files\<close> maps a path to the content of the
  regular file there. \<open>calls\<close> records the calls that change the file system, in order.
  The remaining fields are the environment's: which calls it lets fail, with which error
  (a failed \<open>WriteFile\<close> also says what it left at the path), the working directory,
  the absolute form of a path, and the entries of a directory, name and is-directory
  flag, in the order \<open>ioutil.ReadDir\<close> returns them.
\<close>

datatype os_call = MkdirAll string | WriteFile string string

record OS =
  files :: "string \<rightharpoonup> string"
  calls :: "os_call list"
  failMkdirAll :: "string \<Rightarrow> go_error option"
  failWriteFile :: "string \<Rightarrow> (go_error \<times> string option) option"
  failReadFile :: "string \<Rightarrow> go_error option"
  failStat :: "string \<Rightarrow> go_error option"
  Getwd :: "go_error + string"
  Abs :: "string \<Rightarrow> go_error + string"
  ReadDir :: "string \<Rightarrow> go_error + (string \<times> bool) list"

datatype stat_result = StatOk | StatNotExist | StatError go_error

definition os_Stat :: "OS \<Rightarrow> string \<Rightarrow> stat_result" where
  "os_Stat os path =
     (case failStat os path of
        Some err \<Rightarrow> StatError err
      | None \<Rightarrow> if files os path = None then StatNotExist else StatOk)"

definition IsNotExist :: "stat_result \<Rightarrow> bool" where
  "IsNotExist r = (r = StatNotExist)"

definition os_ReadFile :: "OS \<Rightarrow> string \<Rightarrow> go_error + string" where
  "os_ReadFile os path =
     (case failReadFile os path of
        Some err \<Rightarrow> Inl err
      | None \<Rightarrow>
          (case files os path of
             None \<Rightarrow> Inl (''open '' @ path @ '': no such file or directory'')
           | Some data \<Rightarrow> Inr data))"

definition os_MkdirAll :: "OS \<Rightarrow> string \<Rightarrow> go_error option \<times> OS" where
  "os_MkdirAll os dir = (failMkdirAll os dir, os\<lparr>calls := calls os @ [MkdirAll dir]\<rparr>)"

definition os_WriteFile :: "OS \<Rightarrow> string \<Rightarrow> string \<Rightarrow> go_error option \<times> OS" where
  "os_WriteFile os path data =
     (case failWriteFile os path of
        Some (err, left) \<Rightarrow>
          (Some err, os\<lparr>files := (files os)(path := left),
                          calls := calls os @ [WriteFile path data]\<rparr>)
      | None \<Rightarrow>
          (None, os\<lparr>files := (files os)(path \<mapsto> data),
                      calls := calls os @ [WriteFile path data]\<rparr>))"

section \<open>main.go\<close>

record Provider =
  Name :: string
  Secret :: string

subsection \<open>The provider list as JSON\<close>

text \<open>
  \<open>json.MarshalIndent(providers, "", "  ")\<close> for a slice of \<open>Provider\<close>: an array of
  objects with the members \<open>Name\<close> and \<open>Secret\<close>, one member per line, nested levels
  indented by two spaces; the empty slice is written \<open>[]\<close>. Strings cannot fail to
  encode, so the result is never an error. (A nil slice would be written \<open>null\<close>; the
  program never saves one.)
\<close>

definition encodeProvider :: "Provider \<Rightarrow> string" where
  "encodeProvider p =
     ''  {'' @ nl @
     ''    '' @ dq @ ''Name'' @ dq @ '': '' @ appendString (Name p) @ '','' @ nl @
     ''    '' @ dq @ ''Secret'' @ dq @ '': '' @ appendString (Secret p) @ nl @
     ''  }''"

fun encodeElements :: "Provider list \<Rightarrow> string" where
  "encodeElements [] = []"
| "encodeElements [p] = encodeProvider p"
| "encodeElements (p # ps) = encodeProvider p @ '','' @ nl @ encodeElements ps"

definition json_MarshalIndent :: "Provider list \<Rightarrow> go_error + string" where
  "json_MarshalIndent ps =
     (if ps = [] then Inr ''[]'' else Inr (''['' @ nl @ encodeElements ps @ nl @ '']''))"

subsection \<open>Reading the provider list from JSON\<close>

definition EncodeRune :: "nat \<Rightarrow> string" where
  "EncodeRune r =
     (if r < 0x80 then [char_of r]
      else if r < 0x800 then [char_of (0xC0 + r div 64), char_of (0x80 + r mod 64)]
      else if (0xD800 \<le> r \<and> r \<le> 0xDFFF) \<or> 0x10FFFF < r then [CHR 0xEF, CHR 0xBF, CHR 0xBD]
      else if r < 0x10000 then
        [char_of (0xE0 + r div 4096), char_of (0x80 + r div 64 mod 64), char_of (0x80 + r mod 64)]
      else
        [char_of (0xF0 + r div 262144), char_of (0x80 + r div 4096 mod 64),
         char_of (0x80 + r div 64 mod 64), char_of (0x80 + r mod 64)])"

definition hexVal :: "char \<Rightarrow> nat option" where
  "hexVal c = map_of (zip ''0123456789abcdefABCDEF''
                 [0, 1, 2, 3, 4, 5, 6, 7, 8, 9, 10, 11, 12, 13, 14, 15, 10, 11, 12, 13, 14, 15]) c"

text \<open>\<open>getu4\<close>: the value of the four hexadecimal digits that follow a backslash and
  the letter u.\<close>

definition getu4 :: "string \<Rightarrow> nat option" where
  "getu4 s =
     (case s of
        a # b # c # d # rest \<Rightarrow>
          (case (hexVal a, hexVal b, hexVal c, hexVal d) of
             (Some x3, Some x2, Some x1, Some x0) \<Rightarrow> Some (((x3 * 16 + x2) * 16 + x1) * 16 + x0)
           | _ \<Rightarrow> None)
      | _ \<Rightarrow> None)"


text \<open>The character after a backslash, for the escapes of one character.\<close>

definition simpleEscape :: "char \<Rightarrow> char option" where
  "simpleEscape e =
     map_of [(CHR 0x22, CHR 0x22), (CHR 0x5C, CHR 0x5C), (CHR ''/'', CHR ''/''),
             (CHR ''b'', CHR 0x08), (CHR ''f'', CHR 0x0C), (CHR ''n'', CHR 0x0A),
             (CHR ''r'', CHR 0x0D), (CHR ''t'', CHR 0x09)] e"

text \<open>
  The rune of a four-digit escape with value \<open>rr\<close>, and how many characters of the text
  that follows belong to it: a high surrogate followed by the escape of a low surrogate
  is one rune, written with twelve characters; any other surrogate is U+FFFD.
\<close>

definition escapedRune :: "nat \<Rightarrow> string \<Rightarrow> nat \<times> nat" where
  "escapedRune rr next =
     (if 0xD800 \<le> rr \<and> rr < 0xE000 then
        (case next of
           b # u # hs \<Rightarrow>
             (case getu4 hs of
                Some rr1 \<Rightarrow>
                  if b = CHR 0x5C \<and> u = CHR ''u'' \<and> rr < 0xDC00 \<and> 0xDC00 \<le> rr1 \<and> rr1 < 0xE000
                  then ((rr - 0xD800) * 1024 + (rr1 - 0xDC00) + 0x10000, 6)
                  else (RuneError, 0)
              | None \<Rightarrow> (RuneError, 0))
         | _ \<Rightarrow> (RuneError, 0))
      else (rr, 0))"

text \<open>
  A string literal after its opening quote: the string it stands for and the text after
  the closing quote; \<open>None\<close> where the literal is not well formed.
\<close>

function unquoteBody :: "string \<Rightarrow> (string \<times> string) option" where
  "unquoteBody [] = None"
| "unquoteBody (c # cs) =
     (if c = CHR 0x22 then Some ([], cs)
      else if c = CHR 0x5C then
        (case cs of
           [] \<Rightarrow> None
         | e # es \<Rightarrow>
             if e = CHR ''u'' then
               (case getu4 es of
                  None \<Rightarrow> None
                | Some rr \<Rightarrow>
                    map_option (\<lambda>r. (EncodeRune (fst (escapedRune rr (drop 4 es))) @ fst r, snd r))
                      (unquoteBody (drop (4 + snd (escapedRune rr (drop 4 es))) es)))
             else
               (case simpleEscape e of
                  None \<Rightarrow> None
                | Some ch \<Rightarrow> map_option (\<lambda>r. (ch # fst r, snd r)) (unquoteBody es)))
      else if byte c < 0x20 then None
      else if byte c < 0x80 then map_option (\<lambda>r. (c # fst r, snd r)) (unquoteBody cs)
      else
        map_option (\<lambda>r. (EncodeRune (fst (DecodeRune (c # cs))) @ fst r, snd r))
          (unquoteBody (drop (snd (DecodeRune (c # cs))) (c # cs))))"
  by pat_completeness auto
termination
proof (relation "measure length", goal_cases)
  case (5 c cs)
  have "1 \<le> snd (DecodeRune (c # cs))"
    using DecodeRune_size [of "c # cs"] by simp
  then show ?case by simp
qed simp_all

declare unquoteBody.simps [simp del]

lemma unquoteBody_length: "unquoteBody s = Some r \<Longrightarrow> length (snd r) < length s"
proof (induction s arbitrary: r rule: unquoteBody.induct)
  case 1
  then show ?case by (simp add: unquoteBody.simps)
next
  case (2 c cs)
  note eq = "2.prems" [unfolded unquoteBody.simps(2) [of c cs]]
  show ?case
  proof (cases "c = CHR 0x22")
    case True
    with eq show ?thesis by auto
  next
    case quote: False
    show ?thesis
    proof (cases "c = CHR 0x5C")
      case True
      show ?thesis
      proof (cases cs)
        case Nil
        with eq quote True show ?thesis by simp
      next
        case (Cons e es)
        show ?thesis
        proof (cases "e = CHR ''u''")
          case u: True
          then obtain rr where rr: "getu4 es = Some rr"
            using eq quote True Cons by (cases "getu4 es") auto
          then obtain r' where r': "unquoteBody (drop (4 + snd (escapedRune rr (drop 4 es))) es) = Some r'"
            and "snd r = snd r'"
            using eq quote True Cons u by auto
          moreover from "2.IH"(1) [OF quote True Cons u rr r']
          have "length (snd r') < length es" by simp
          ultimately show ?thesis using Cons by simp
        next
          case nu: False
          then obtain ch where ch: "simpleEscape e = Some ch"
            using eq quote True Cons by (cases "simpleEscape e") auto
          then obtain r' where r': "unquoteBody es = Some r'" and "snd r = snd r'"
            using eq quote True Cons nu by auto
          moreover from "2.IH"(2) [OF quote True Cons nu ch r']
          have "length (snd r') < length es" .
          ultimately show ?thesis using Cons by simp
        qed
      qed
    next
      case bs: False
      have ctl: "\<not> byte c < 0x20"
        using eq quote bs by (auto split: if_splits)
      show ?thesis
      proof (cases "byte c < 0x80")
        case True
        then obtain r' where r': "unquoteBody cs = Some r'" and "snd r = snd r'"
          using eq quote bs ctl by auto
        moreover from "2.IH"(3) [OF quote bs ctl True r']
        have "length (snd r') < length cs" .
        ultimately show ?thesis by simp
      next
        case False
        then obtain r' where r': "unquoteBody (drop (snd (DecodeRune (c # cs))) (c # cs)) = Some r'"
          and "snd r = snd r'"
          using eq quote bs ctl by auto
        moreover from "2.IH"(4) [OF quote bs ctl False r']
        have "length (snd r') < length (drop (snd (DecodeRune (c # cs))) (c # cs))" .
        ultimately show ?thesis by simp
      qed
    qed
  qed
qed

datatype token = LBrack | RBrack | LBrace | RBrace | Colon | Comma | Null | Str string

definition jsonSpace :: "char \<Rightarrow> bool" where
  "jsonSpace c = (c = CHR '' '' \<or> c = CHR 0x09 \<or> c = CHR 0x0D \<or> c = CHR 0x0A)"

definition punctuation :: "char \<Rightarrow> token option" where
  "punctuation c =
     map_of [(CHR ''['', LBrack), (CHR '']'', RBrack), (CHR ''{'', LBrace), (CHR ''}'', RBrace),
             (CHR '':'', Colon), (CHR '','', Comma)] c"

function tokens :: "string \<Rightarrow> token list option" where
  "tokens [] = Some []"
| "tokens (c # cs) =
     (if jsonSpace c then tokens cs
      else if c = CHR 0x22 then
        (case unquoteBody cs of
           None \<Rightarrow> None
         | Some r \<Rightarrow> map_option ((#) (Str (fst r))) (tokens (snd r)))
      else if c = CHR ''n'' \<and> take 3 cs = ''ull'' then map_option ((#) Null) (tokens (drop 3 cs))
      else
        (case punctuation c of
           None \<Rightarrow> None
         | Some t \<Rightarrow> map_option ((#) t) (tokens cs)))"
  by pat_completeness auto
termination
proof (relation "measure length", goal_cases)
  case (3 c cs r)
  then show ?case using unquoteBody_length [of cs r] by simp
qed simp_all

declare tokens.simps [simp del]

text \<open>
  Storing the member \<open>key\<close> of an object in a \<open>Provider\<close>: the field whose name is the
  key, the case of the ASCII letters apart; a key that names no field is ignored. (Go's
  folding also equates two non-ASCII letters with \<open>k\<close> and \<open>s\<close>; keys written with them
  are ignored here.)
\<close>

definition setField :: "string \<Rightarrow> string \<Rightarrow> Provider \<Rightarrow> Provider" where
  "setField key v p =
     (if map asciiLower key = ''name'' then p\<lparr>Name := v\<rparr>
      else if map asciiLower key = ''secret'' then p\<lparr>Secret := v\<rparr>
      else p)"

fun members :: "token list \<Rightarrow> Provider \<Rightarrow> (Provider \<times> token list) option" where
  "members [] p = None"
| "members (t # ts) p =
     (case (t, ts) of
        (Str key, Colon # Str v # Comma # after) \<Rightarrow> members after (setField key v p)
      | (Str key, Colon # Str v # RBrace # after) \<Rightarrow> Some (setField key v p, after)
      | (Str key, Colon # Null # Comma # after) \<Rightarrow> members after p
      | (Str key, Colon # Null # RBrace # after) \<Rightarrow> Some (p, after)
      | _ \<Rightarrow> None)"

definition element :: "token list \<Rightarrow> (Provider \<times> token list) option" where
  "element ts =
     (case ts of
        LBrace # RBrace # after \<Rightarrow> Some (\<lparr>Name = [], Secret = []\<rparr>, after)
      | LBrace # ms \<Rightarrow> members ms \<lparr>Name = [], Secret = []\<rparr>
      | Null # after \<Rightarrow> Some (\<lparr>Name = [], Secret = []\<rparr>, after)
      | _ \<Rightarrow> None)"

lemma members_length: "members ts p = Some r \<Longrightarrow> length (snd r) < length ts"
proof (induction "length ts" arbitrary: ts p rule: less_induct)
  case less
  from less.prems show ?case
    by (cases ts) (auto split: token.splits list.splits dest!: less.hyps [rotated])
qed

lemma element_length: "element ts = Some r \<Longrightarrow> length (snd r) < length ts"
  by (auto simp: element_def split: list.splits token.splits dest!: members_length)

function elements :: "token list \<Rightarrow> (Provider list \<times> token list) option" where
  "elements ts =
     (case element ts of
        None \<Rightarrow> None
      | Some r \<Rightarrow>
          (case snd r of
             Comma # after \<Rightarrow> map_option (\<lambda>q. (fst r # fst q, snd q)) (elements after)
           | RBrack # after \<Rightarrow> Some ([fst r], after)
           | _ \<Rightarrow> None))"
  by pat_completeness auto
termination
proof (relation "measure length", goal_cases)
  case (2 ts r t after)
  then show ?case using element_length [of ts r] by simp
qed simp

declare elements.simps [simp del]

text \<open>
  \<open>json.Unmarshal(data, &providers)\<close>, for the documents the program writes and their
  near relatives: \<open>null\<close>, or an array whose elements are \<open>null\<close> or objects whose members
  have strings or \<open>null\<close> as values, with any white space between the tokens. Go reads
  further documents (members with other values under keys that name no field, for
  one); for those this function answers with an error.
\<close>

definition json_Unmarshal :: "string \<Rightarrow> go_error + Provider list" where
  "json_Unmarshal data =
     (case tokens data of
        Some [Null] \<Rightarrow> Inr []
      | Some [LBrack, RBrack] \<Rightarrow> Inr []
      | Some (LBrack # ts) \<Rightarrow>
          (case elements ts of
             Some (ps, []) \<Rightarrow> Inr ps
           | _ \<Rightarrow> Inl ''cannot unmarshal into Go value of type []main.Provider'')
      | _ \<Rightarrow> Inl ''invalid character in JSON input'')"

subsection \<open>generateTOTP\<close>

text \<open>
  \<open>totp.GenerateCode(secret, t)\<close> of the library \<open>pquerna/otp\<close>: with the default period
  of 30 seconds it computes the counter \<open>floor (t.Unix() / 30)\<close> and hands secret and
  counter to the HOTP routine, which decodes the secret and runs HMAC-SHA1. The HOTP
  routine is the parameter \<open>hotp\<close>: it returns an error or the passcode.
\<close>

definition totp_GenerateCode ::
  "(string \<Rightarrow> int \<Rightarrow> go_error + string) \<Rightarrow> string \<Rightarrow> Time \<Rightarrow> go_error + string" where
  "totp_GenerateCode hotp secret t = hotp secret (Unix t div 30)"

definition generateTOTP ::
  "(string \<Rightarrow> int \<Rightarrow> go_error + string) \<Rightarrow> string \<Rightarrow> Time \<Rightarrow> go_error + string" where
  "generateTOTP hotp secret now =
     (case totp_GenerateCode hotp secret now of
        Inl err \<Rightarrow> Inl err
      | Inr code \<Rightarrow> Inr code)"

subsection \<open>The variables captured by the closures of \<open>main\<close>\<close>

text \<open>
  \<open>otpView\<close> is the text last set on the text view; \<open>providerList\<close> holds the items of the
  list widget (main text and shortcut rune); the three \<open>form...\<close> fields are the texts of
  the input fields of the form, items 0, 1 and 2.
\<close>

record Session =
  providers :: "Provider list"
  selectedProviderIndex :: int
  currentOTP :: string
  currentProvider :: string
  otpView :: string
  providerList :: "(string \<times> int) list"
  formName :: string
  formSecret :: string
  formFilePath :: string

definition escapeBrackets :: "string \<Rightarrow> string" where
  "escapeBrackets s = ReplaceAll (ReplaceAll s (CHR ''['') ''[['') (CHR '']'') '']]''"

subsection \<open>updateCountdown\<close>

text \<open>The remaining seconds: \<open>30 - time.Now().Second()%30\<close>. \<open>Second()\<close> is never negative,
  so Go's remainder is \<open>mod\<close>.\<close>

definition remainingSeconds :: "Time \<Rightarrow> int" where
  "remainingSeconds now = 30 - Second now mod 30"

definition countdownText :: "string \<Rightarrow> string \<Rightarrow> int \<Rightarrow> string" where
  "countdownText escapedProvider escapedOTP remaining =
     ''[green]Provider: [yellow]'' @ escapedProvider @ ''[white]'' @ nl @
     ''[green]Your OTP: [yellow]'' @ escapedOTP @ ''[white]'' @ nl @ nl @
     ''Valid for [red]'' @ fmt_d remaining @ ''[white] seconds''"

definition updateCountdown :: "Time \<Rightarrow> Session \<Rightarrow> Session" where
  "updateCountdown now s =
     (if currentOTP s = [] \<or> currentProvider s = [] then s
      else s\<lparr>otpView := countdownText (escapeBrackets (currentProvider s))
                            (escapeBrackets (currentOTP s)) (remainingSeconds now)\<rparr>)"

subsection \<open>generateAndDisplayOTP\<close>

definition noSelectionText :: string where
  "noSelectionText =
     ''[yellow]Welcome to OTP Auth![white]'' @ nl @ nl @
     ''[red]No providers available or no provider selected[white]'' @ nl @ nl @
     ''[green]To get started:[white]'' @ nl @
     ''1. Enter a provider name in the form on the left'' @ nl @
     ''2. Enter a secret or load one from a file'' @ nl @
     ''3. Click '' @ sq @ ''Add Provider'' @ sq @ '' to create your first provider'' @ nl @ nl @
     ''Your providers will be saved automatically and loaded when you restart the app.''"

text \<open>Indexing a slice: Go panics when the index is negative or not below the length.\<close>

definition index :: "'a list \<Rightarrow> int \<Rightarrow> go_panic + 'a" where
  "index xs i = (if 0 \<le> i \<and> i < int (length xs) then Inr (xs ! nat i)
                 else Inl (IndexOutOfRange i (length xs)))"

text \<open>
  The clock is read twice on the successful path: by \<open>generateTOTP\<close> (\<open>tGen\<close>) and then by
  \<open>updateCountdown\<close> (\<open>tShow\<close>).
\<close>

definition generateAndDisplayOTP ::
  "(string \<Rightarrow> int \<Rightarrow> go_error + string) \<Rightarrow> Time \<Rightarrow> Time \<Rightarrow> Session \<Rightarrow> go_panic + Session" where
  "generateAndDisplayOTP hotp tGen tShow s =
     (if length (providers s) = 0 \<or> selectedProviderIndex s = - 1
      then Inr (s\<lparr>otpView := noSelectionText, currentOTP := [], currentProvider := []\<rparr>)
      else case index (providers s) (selectedProviderIndex s) of
        Inl p \<Rightarrow> Inl p
      | Inr provider \<Rightarrow>
          (case generateTOTP hotp (Secret provider) tGen of
             Inl err \<Rightarrow>
               Inr (s\<lparr>otpView := ''[red]Error: '' @ escapeBrackets err @ ''[white]'',
                      currentOTP := [], currentProvider := []\<rparr>)
           | Inr otp \<Rightarrow>
               Inr (updateCountdown tShow
                      (s\<lparr>currentOTP := otp, currentProvider := Name provider\<rparr>))))"

text \<open>The function given to \<open>SetSelectedFunc\<close> of the provider list.\<close>

definition selectProvider ::
  "(string \<Rightarrow> int \<Rightarrow> go_error + string) \<Rightarrow> Time \<Rightarrow> Time \<Rightarrow> int \<Rightarrow> Session \<Rightarrow> go_panic + Session" where
  "selectProvider hotp tGen tShow i s =
     generateAndDisplayOTP hotp tGen tShow (s\<lparr>selectedProviderIndex := i\<rparr>)"

text \<open>The two functions queued by the ticker goroutines.\<close>

definition coarseTick ::
  "(string \<Rightarrow> int \<Rightarrow> go_error + string) \<Rightarrow> Time \<Rightarrow> Time \<Rightarrow> Session \<Rightarrow> go_panic + Session" where
  "coarseTick hotp tGen tShow s =
     (if length (providers s) > 0 \<and> selectedProviderIndex s \<ge> 0
      then generateAndDisplayOTP hotp tGen tShow s
      else Inr s)"

definition fineTick :: "Time \<Rightarrow> Session \<Rightarrow> Session" where
  "fineTick now s = updateCountdown now s"

subsection \<open>readSecretFromFile\<close>

definition readSecretFromFile :: "Lib \<Rightarrow> OS \<Rightarrow> string \<Rightarrow> go_error + string" where
  "readSecretFromFile lib os filePath =
     (let ext = ToLower lib (Ext filePath) in
      case os_ReadFile os filePath of
        Inl err \<Rightarrow> Inl (''failed to read file: '' @ err)
      | Inr data \<Rightarrow>
          if ext = ''.txt'' \<or> ext = ''.key'' then
            (let secret = TrimSpace data in
             case base32_DecodeString lib secret of
               Inl err \<Rightarrow> Inl (''invalid base32 string in file: '' @ err)
             | Inr decoded \<Rightarrow> Inr secret)
          else Inl ''QR code parsing is not supported in this version'')"

subsection \<open>saveProviders\<close>

definition ProvidersFilePath :: string where
  "ProvidersFilePath = ''providers.json''"

definition saveProviders :: "Lib \<Rightarrow> Provider list \<Rightarrow> string \<Rightarrow> OS \<Rightarrow> go_error option \<times> OS" where
  "saveProviders lib ps filePath os =
     (case os_MkdirAll os (filepath_Dir lib filePath) of
        (Some err, os1) \<Rightarrow> (Some (''failed to create directory: '' @ err), os1)
      | (None, os1) \<Rightarrow>
          (case json_MarshalIndent ps of
             Inl err \<Rightarrow> (Some (''failed to marshal providers: '' @ err), os1)
           | Inr data \<Rightarrow>
               (case os_WriteFile os1 filePath data of
                  (Some err, os2) \<Rightarrow> (Some (''failed to write file: '' @ err), os2)
                | (None, os2) \<Rightarrow> (None, os2))))"

subsection \<open>loadProviders\<close>

definition loadProviders :: "OS \<Rightarrow> string \<Rightarrow> go_error + Provider list" where
  "loadProviders os filePath =
     (if IsNotExist (os_Stat os filePath) then Inr []
      else
        case os_ReadFile os filePath of
          Inl err \<Rightarrow> Inl (''failed to read file: '' @ err)
        | Inr data \<Rightarrow>
            (case json_Unmarshal data of
               Inl err \<Rightarrow> Inl (''failed to unmarshal providers: '' @ err)
             | Inr ps \<Rightarrow> Inr ps))"

subsection \<open>The handler of the button "Add Provider"\<close>

definition addedText :: "string \<Rightarrow> string \<Rightarrow> string" where
  "addedText escapedProviderName escapedFilePath =
     ''[green]Success![white]'' @ nl @ nl @
     ''Added new provider: [yellow]'' @ escapedProviderName @ ''[white]'' @ nl @ nl @
     ''Your provider has been saved to [blue]'' @ escapedFilePath @ ''[white]'' @ nl @
     ''It will be automatically loaded when you restart the app.''"

definition addProvider ::
  "Lib \<Rightarrow> (string \<Rightarrow> int \<Rightarrow> go_error + string) \<Rightarrow> Time \<Rightarrow> Time \<Rightarrow> Session \<times> OS
     \<Rightarrow> go_panic + Session \<times> OS" where
  "addProvider lib hotp tGen tShow w =
     (let s = fst w; os = snd w; providerName = formName s in
      if providerName = [] then
        Inr (s\<lparr>otpView := ''[red]Error: Provider name cannot be empty[white]''\<rparr>, os)
      else
        let secret = formSecret s in
        if secret = [] then
          Inr (s\<lparr>otpView := ''[red]Error: Secret cannot be empty[white]''\<rparr>, os)
        else
          case base32_DecodeString lib secret of
            Inl err \<Rightarrow>
              Inr (s\<lparr>otpView := ''[red]Error: Secret must be a valid base32 string[white]''\<rparr>, os)
          | Inr decoded \<Rightarrow>
              let newProvider = \<lparr>Name = providerName, Secret = secret\<rparr>;
                  ps = providers s @ [newProvider];
                  s1 = s\<lparr>providers := ps,
                         providerList := providerList s @ [(Name newProvider, 49 + int (length ps) - 1)]\<rparr>
              in
              case saveProviders lib ps ProvidersFilePath os of
                (Some err, os1) \<Rightarrow>
                  Inr (s1\<lparr>otpView := ''[red]Error saving providers: '' @ escapeBrackets err
                                        @ ''[white]''\<rparr>, os1)
              | (None, os1) \<Rightarrow>
                  let s2 = s1\<lparr>selectedProviderIndex := int (length ps) - 1,
                              formName := [], formSecret := [],
                              currentOTP := [], currentProvider := [],
                              otpView := addedText (escapeBrackets providerName)
                                           (escapeBrackets ProvidersFilePath)\<rparr>
                  in
                  case generateAndDisplayOTP hotp tGen tShow s2 of
                    Inl p \<Rightarrow> Inl p
                  | Inr s3 \<Rightarrow> Inr (s3, os1))"

subsection \<open>The state \<open>main\<close> starts from\<close>

definition welcomeText :: string where
  "welcomeText =
     ''[yellow]Welcome to OTP Auth![white]'' @ nl @ nl @
     ''[red]No providers available[white]'' @ nl @ nl @
     ''[green]To get started:[white]'' @ nl @
     ''1. Enter a provider name in the form on the left'' @ nl @
     ''2. Enter a secret or load one from a file'' @ nl @
     ''3. Click '' @ sq @ ''Add Provider'' @ sq @ '' to create your first provider'' @ nl @ nl @
     ''Your providers will be saved automatically and loaded when you restart the app.''"

text \<open>
  \<open>ps\<close> is the list \<open>loadProviders\<close> returned (the empty list when it failed). The shortcut
  of item \<open>i\<close> is \<open>rune('1'+i)\<close>, the code point 49 + i.
\<close>

definition initialSession :: "Provider list \<Rightarrow> Session" where
  "initialSession ps =
     \<lparr>providers = ps, selectedProviderIndex = - 1, currentOTP = [], currentProvider = [],
      otpView = welcomeText,
      providerList = map (\<lambda>(i, p). (Name p, 49 + int i)) (enumerate 0 ps),
      formName = [], formSecret = [], formFilePath = []\<rparr>"

section \<open>filepicker.go\<close>

text \<open>The fields \<open>Name\<close> and \<open>Path\<close> of the source are \<open>entryName\<close> and \<open>entryPath\<close> here,
  \<open>Name\<close> being a field of \<open>Provider\<close> already.\<close>

record FileInfo =
  entryName :: string
  entryPath :: string
  IsDir :: bool
  IsParent :: bool

text \<open>
  The function given to \<open>sort.Slice\<close>, on the two elements it is asked about. Go compares
  strings byte by byte, which is the lexicographic order of \<open>string\<close> here.
\<close>

definition lessEntry :: "Lib \<Rightarrow> FileInfo \<Rightarrow> FileInfo \<Rightarrow> bool" where
  "lessEntry lib a b =
     (if IsParent a then True
      else if IsParent b then False
      else if IsDir a \<noteq> IsDir b then IsDir a
      else ToLower lib (entryName a) < ToLower lib (entryName b))"

text \<open>The slice before it is sorted: the parent entry, then the entries of the directory
  that are not hidden, in the order \<open>ReadDir\<close> gave them.\<close>

definition collectEntries :: "Lib \<Rightarrow> string \<Rightarrow> (string \<times> bool) list \<Rightarrow> FileInfo list" where
  "collectEntries lib absPath entries =
     \<lparr>entryName = ''..'', entryPath = filepath_Dir lib absPath, IsDir = True, IsParent = True\<rparr>
     # map (\<lambda>(name, isDir).
              \<lparr>entryName = name, entryPath = filepath_Join lib absPath name,
               IsDir = isDir, IsParent = False\<rparr>)
         (filter (\<lambda>(name, isDir). \<not> HasPrefix name ''.'') entries)"

text \<open>
  \<open>sort.Slice\<close> is the parameter \<open>sortSlice\<close>: Go promises a permutation of the slice that
  is in order for the given function, and no more (the sort is not stable).
\<close>

definition listDirectory ::
  "((FileInfo \<Rightarrow> FileInfo \<Rightarrow> bool) \<Rightarrow> FileInfo list \<Rightarrow> FileInfo list) \<Rightarrow> Lib \<Rightarrow> OS \<Rightarrow> string
     \<Rightarrow> go_error + FileInfo list" where
  "listDirectory sortSlice lib os dirPath =
     (case (if dirPath = [] then
              (case Getwd os of
                 Inl err \<Rightarrow> Inl (''failed to get current directory: '' @ err)
               | Inr wd \<Rightarrow> Inr wd)
            else Inr dirPath) of
        Inl failure \<Rightarrow> Inl failure
      | Inr dir \<Rightarrow>
          (case Abs os dir of
             Inl err \<Rightarrow> Inl (''failed to get absolute path: '' @ err)
           | Inr absPath \<Rightarrow>
               (case ReadDir os absPath of
                  Inl err \<Rightarrow> Inl (''failed to read directory: '' @ err)
                | Inr entries \<Rightarrow>
                    Inr (sortSlice (lessEntry lib) (collectEntries lib absPath entries)))))"

text \<open>
  What Go's \<open>sort.Slice\<close> does with a slice of at most 12 elements: insertion sort, each
  element moved to the left while the function puts it before its left neighbour. The
  sorted prefix is kept in reverse, its last element first.
\<close>

fun insertLeft :: "('a \<Rightarrow> 'a \<Rightarrow> bool) \<Rightarrow> 'a \<Rightarrow> 'a list \<Rightarrow> 'a list" where
  "insertLeft before x [] = [x]"
| "insertLeft before x (l # ls) =
     (if before x l then l # insertLeft before x ls else x # l # ls)"

definition insertionSort :: "('a \<Rightarrow> 'a \<Rightarrow> bool) \<Rightarrow> 'a list \<Rightarrow> 'a list" where
  "insertionSort before xs = rev (foldl (\<lambda>sorted x. insertLeft before x sorted) [] xs)"

text \<open>The promise of \<open>sort.Slice\<close> for one call.\<close>

definition sortsBy :: "('a \<Rightarrow> 'a \<Rightarrow> bool) \<Rightarrow> 'a list \<Rightarrow> 'a list \<Rightarrow> bool" where
  "sortsBy before xs ys = (mset ys = mset xs \<and> sorted_wrt (\<lambda>a b. \<not> before b a) ys)"

section \<open>Values and notions for the properties\<close>

subsection \<open>Values for running the model\<close>

text \<open>
  A stand-in for the HOTP routine, used only where the model is run on an example: it
  accepts one secret and answers with the last six decimal digits of the counter.
\<close>

definition exampleHotp :: "string \<Rightarrow> int \<Rightarrow> go_error + string" where
  "exampleHotp secret counter =
     (if secret = ''JBSWY3DPEHPK3PXP'' then Inr (decimal (nat (counter mod 1000000)))
      else Inl ''Decoding of secret as base32 failed.'')"

definition exampleSession :: Session where
  "exampleSession = initialSession [\<lparr>Name = ''work'', Secret = ''JBSWY3DPEHPK3PXP''\<rparr>]"

definition at :: "int \<Rightarrow> Time" where
  "at u = \<lparr>unixSec = u, zoneOffset = 3600\<rparr>"

text \<open>
  Stand-ins for the routines left open and for the file system, again only for running the
  model: a decoder that accepts the strings over the base32 alphabet whose length is a
  multiple of 8, and an empty file system in which no call fails.
\<close>

definition exampleLib :: Lib where
  "exampleLib =
     \<lparr>base32_DecodeString =
        (\<lambda>s. if list_all (\<lambda>c. c \<in> set ''ABCDEFGHIJKLMNOPQRSTUVWXYZ234567'') s
                 \<and> length s mod 8 = 0
             then Inr [] else Inl ''illegal base32 data''),
      unicode_ToLower = (\<lambda>s. s),
      filepath_Dir = (\<lambda>p. ''.''),
      filepath_Join = (\<lambda>d n. d @ ''/'' @ n)\<rparr>"

definition exampleOS :: OS where
  "exampleOS =
     \<lparr>files = Map.empty, calls = [],
      failMkdirAll = (\<lambda>p. None), failWriteFile = (\<lambda>p. None),
      failReadFile = (\<lambda>p. None), failStat = (\<lambda>p. None),
      Getwd = Inr ''/home/user'', Abs = (\<lambda>p. Inr p), ReadDir = (\<lambda>p. Inr [])\<rparr>"

text \<open>A file system with one file: a secret with white space around it.\<close>

definition secretFile :: OS where
  "secretFile =
     exampleOS\<lparr>files := [''secret.txt'' \<mapsto> '' '' @ [CHR 0x09] @ ''JBSWY3DPEHPK3PXP'' @ nl]\<rparr>"

text \<open>A file system with one directory to list.\<close>

definition pickerOS :: OS where
  "pickerOS =
     exampleOS\<lparr>ReadDir := (\<lambda>p. if p = ''/home/user'' then
        Inr [(''.git'', True), (''Bin'', True), (''Zeta.txt'', False), (''alpha.key'', False),
             (''docs'', True)]
        else Inl (''open '' @ p @ '': no such file or directory''))\<rparr>"

subsection \<open>Notions the properties are stated with\<close>

text \<open>
  The code and the provider name held by the session are present when they are not
  empty, absent when they are empty; the selection is valid when the index refers to an
  element of the provider list. A generation succeeds when \<open>generateTOTP\<close> returns no
  error for the secret of the selected provider. \<open>codesNonEmpty\<close> says of the HOTP routine
  that a passcode it returns is never the empty string. A session is \<open>stable\<close> when no
  provider has an empty name, the index is -1 or valid, code and name are both present
  or both absent, and they are absent unless the selection is valid.
\<close>

definition present :: "Session \<Rightarrow> bool" where
  "present s = (currentOTP s \<noteq> [] \<and> currentProvider s \<noteq> [])"

definition absent :: "Session \<Rightarrow> bool" where
  "absent s = (currentOTP s = [] \<and> currentProvider s = [])"

definition selectionValid :: "Session \<Rightarrow> bool" where
  "selectionValid s =
     (0 \<le> selectedProviderIndex s \<and> selectedProviderIndex s < int (length (providers s)))"

definition generationSucceeds ::
  "(string \<Rightarrow> int \<Rightarrow> go_error + string) \<Rightarrow> Time \<Rightarrow> Session \<Rightarrow> bool" where
  "generationSucceeds hotp tGen s =
     (\<not> isl (generateTOTP hotp (Secret (providers s ! nat (selectedProviderIndex s))) tGen))"

definition codesNonEmpty :: "(string \<Rightarrow> int \<Rightarrow> go_error + string) \<Rightarrow> bool" where
  "codesNonEmpty hotp = (\<forall>secret counter. hotp secret counter \<noteq> Inr [])"

definition stable :: "Session \<Rightarrow> bool" where
  "stable s =
     (list_all (\<lambda>p. Name p \<noteq> []) (providers s)
      \<and> (selectedProviderIndex s = - 1 \<or> selectionValid s)
      \<and> (present s \<or> absent s)
      \<and> (selectionValid s \<or> absent s))"

text \<open>
  A provider as it comes back from the file, and the tokens of the document that
  \<open>json_MarshalIndent\<close> writes for a provider and for a list of providers.
\<close>

definition coerced :: "Provider \<Rightarrow> Provider" where
  "coerced p = \<lparr>Name = toValidUTF8 (Name p), Secret = toValidUTF8 (Secret p)\<rparr>"

definition providerTokens :: "Provider \<Rightarrow> token list" where
  "providerTokens p =
     [LBrace, Str ''Name'', Colon, Str (toValidUTF8 (Name p)), Comma,
      Str ''Secret'', Colon, Str (toValidUTF8 (Secret p)), RBrace]"

fun elementsTokens :: "Provider list \<Rightarrow> token list" where
  "elementsTokens [] = []"
| "elementsTokens [p] = providerTokens p"
| "elementsTokens (p # ps) = providerTokens p @ Comma # elementsTokens ps"

text \<open>The three messages with which the handler of "Add Provider" rejects its input.\<close>

definition validationErrors :: "string set" where
  "validationErrors =
     {''[red]Error: Provider name cannot be empty[white]'',
      ''[red]Error: Secret cannot be empty[white]'',
      ''[red]Error: Secret must be a valid base32 string[white]''}"

section \<open>Properties\<close>

lemma Second_range: "0 \<le> Second t \<and> Second t < 60"
  by (simp add: Second_def)

text \<open>
  C2. The claim: for every instant, the remaining seconds shown by the countdown,
  \<open>30 - Second() % 30\<close>, equal \<open>30 - (epochSeconds mod 30)\<close>, lie between 1 and 30, and are
  30 exactly when \<open>epochSeconds mod 30 = 0\<close>.

  \<open>Second()\<close> is read on the wall clock of the local zone, so the equation with the epoch
  seconds needs the zone's offset to be a whole number of half minutes. In a zone 19
  minutes and 32 seconds east of UTC, at an instant whose epoch seconds are a multiple of
  30, the countdown shows 28 and not 30.
\<close>

theorem remainingSeconds_zone_counterexample:
  "remainingSeconds \<lparr>unixSec = 1699999980, zoneOffset = 1172\<rparr> = 28
   \<and> 30 - unixSec \<lparr>unixSec = 1699999980, zoneOffset = 1172\<rparr> mod 30 = (30::int)"
  by (simp add: remainingSeconds_def Second_def)

text \<open>
  C2, amended. For every instant read in a zone whose offset from UTC is a multiple of 30
  seconds, the remaining seconds equal \<open>30 - (epochSeconds mod 30)\<close>, lie between 1 and 30,
  and are 30 exactly when \<open>epochSeconds mod 30 = 0\<close>.
\<close>

theorem remainingSeconds_epoch:
  assumes "zoneOffset t mod 30 = 0"
  shows "remainingSeconds t = 30 - Unix t mod 30
         \<and> 1 \<le> remainingSeconds t \<and> remainingSeconds t \<le> 30
         \<and> (remainingSeconds t = 30 \<longleftrightarrow> Unix t mod 30 = 0)"
proof -
  have "(unixSec t + zoneOffset t) mod 60 mod 30 = (unixSec t + zoneOffset t) mod 30"
    by (simp add: mod_mod_cancel)
  also have "\<dots> = unixSec t mod 30"
    using assms by (metis add.right_neutral mod_add_right_eq)
  finally have eq: "Second t mod 30 = unixSec t mod 30"
    by (simp add: Second_def)
  have "0 \<le> unixSec t mod 30" "unixSec t mod 30 < 30"
    by simp_all
  with eq show ?thesis
    by (auto simp: remainingSeconds_def Unix_def)
qed

theorem remainingSeconds_epoch_witness:
  "zoneOffset \<lparr>unixSec = 1700000000, zoneOffset = 19800\<rparr> mod 30 = 0
   \<and> remainingSeconds \<lparr>unixSec = 1700000000, zoneOffset = 19800\<rparr> = 10
   \<and> Unix \<lparr>unixSec = 1700000000, zoneOffset = 19800\<rparr> mod 30 = 20"
  using remainingSeconds_epoch [of "\<lparr>unixSec = 1700000000, zoneOffset = 19800\<rparr>"]
  by (simp add: Unix_def)

subsection \<open>Selecting a provider\<close>

lemma updateCountdown_frame:
  "currentOTP (updateCountdown now s) = currentOTP s"
  "currentProvider (updateCountdown now s) = currentProvider s"
  "providers (updateCountdown now s) = providers s"
  "selectedProviderIndex (updateCountdown now s) = selectedProviderIndex s"
  by (simp_all add: updateCountdown_def)

lemma generateAndDisplayOTP_Inr:
  assumes "generateAndDisplayOTP hotp tg ts s = Inr s'"
  shows "providers s' = providers s"
    and "selectedProviderIndex s' = selectedProviderIndex s"
    and "currentOTP s' =
          (if providers s = [] \<or> selectedProviderIndex s = - 1 then []
           else case generateTOTP hotp (Secret (providers s ! nat (selectedProviderIndex s))) tg of
                  Inl e \<Rightarrow> [] | Inr otp \<Rightarrow> otp)"
    and "providers s = [] \<or> selectedProviderIndex s = - 1
         \<or> (0 \<le> selectedProviderIndex s \<and> selectedProviderIndex s < int (length (providers s)))"
  using assms
  by (auto simp: generateAndDisplayOTP_def index_def updateCountdown_frame
      split: if_splits sum.splits)

lemma generateAndDisplayOTP_no_panic:
  assumes "providers s = [] \<or> selectedProviderIndex s = - 1
         \<or> (0 \<le> selectedProviderIndex s \<and> selectedProviderIndex s < int (length (providers s)))"
  shows "\<exists>s'. generateAndDisplayOTP hotp tg ts s = Inr s'"
  using assms
  by (auto simp: generateAndDisplayOTP_def index_def split: sum.splits)

text \<open>
  C1. The claim: for every provider list and every selection index that is out of range
  for it (any index at or above the length, not only -1), selecting clears \<open>currentOTP\<close>
  and \<open>currentProvider\<close>, shows the no-selection text and does not panic.

  The guard of \<open>generateAndDisplayOTP\<close> tests for an empty list and for the index -1 only.
  With one provider in the list and the index 1, the slice access panics.
\<close>

theorem selectProvider_beyond_length_counterexample:
  "selectProvider exampleHotp (at 1700000000) (at 1700000000) 1 exampleSession
     = Inl (IndexOutOfRange 1 1)"
  by (simp add: selectProvider_def generateAndDisplayOTP_def index_def exampleSession_def
      initialSession_def)

text \<open>
  C1, amended. For every provider list and selection index, when the list is empty or the
  index is -1 (the value the program keeps for "no provider selected"), selecting clears
  \<open>currentOTP\<close> and \<open>currentProvider\<close>, shows the no-selection text and does not panic.
\<close>

theorem selectProvider_no_selection:
  assumes "providers s = [] \<or> i = - 1"
  shows "selectProvider hotp tGen tShow i s =
           Inr (s\<lparr>selectedProviderIndex := i, otpView := noSelectionText,
                  currentOTP := [], currentProvider := []\<rparr>)"
  using assms by (auto simp: selectProvider_def generateAndDisplayOTP_def)

theorem selectProvider_no_selection_witness:
  "(providers exampleSession = [] \<or> (- 1::int) = - 1)
   \<and> selectProvider exampleHotp (at 1700000000) (at 1700000000) (- 1) exampleSession =
       Inr (exampleSession\<lparr>selectedProviderIndex := - 1, otpView := noSelectionText,
                           currentOTP := [], currentProvider := []\<rparr>)"
  using selectProvider_no_selection
    [of exampleSession "- 1" exampleHotp "at 1700000000" "at 1700000000"]
  by simp

subsection \<open>Codes within one window\<close>



lemmas run_simps = selectProvider_def generateAndDisplayOTP_def index_def exampleSession_def
  initialSession_def generateTOTP_def totp_GenerateCode_def exampleHotp_def at_def Unix_def
  updateCountdown_def escapeBrackets_def ReplaceAll_def remainingSeconds_def Second_def


subsection \<open>The fine tick\<close>

text \<open>
  C7. The fine tick, \<open>updateCountdown\<close>, takes no code generator at all. It leaves
  \<open>currentOTP\<close>, \<open>currentProvider\<close>, the provider list and the selected index as they
  are; the only variable it may change is the text of the view, which afterwards is
  either the old text or the countdown text built from the unchanged provider name, the
  unchanged code and the remaining seconds.
\<close>

theorem fineTick_frame:
  "currentOTP (fineTick now s) = currentOTP s
   \<and> currentProvider (fineTick now s) = currentProvider s
   \<and> fineTick now s = s\<lparr>otpView := otpView (fineTick now s)\<rparr>
   \<and> otpView (fineTick now s) \<in>
       {otpView s,
        countdownText (escapeBrackets (currentProvider s)) (escapeBrackets (currentOTP s))
          (remainingSeconds now)}"
  by (simp add: fineTick_def updateCountdown_def)

subsection \<open>Rejected input of "Add Provider"\<close>

text \<open>
  C5. When the name field is empty, or the secret field is empty, or the base32 decoder
  returns an error for the secret, the handler of "Add Provider" returns with one of its
  three error messages in the view and nothing else changed: the session is the one
  before but for the text of the view, so the provider list and the list widget are
  unchanged, and the file system is the one before, with no call recorded, so nothing was
  written to \<open>providers.json\<close>.
\<close>

theorem addProvider_rejects:
  assumes "formName s = [] \<or> formSecret s = []
           \<or> isl (base32_DecodeString lib (formSecret s))"
  shows "\<exists>msg s'. addProvider lib hotp tGen tShow (s, os) = Inr (s', os)
           \<and> s' = s\<lparr>otpView := msg\<rparr> \<and> msg \<in> validationErrors
           \<and> providers s' = providers s \<and> providerList s' = providerList s"
  using assms
  by (auto simp: addProvider_def Let_def validationErrors_def split: sum.splits)

theorem addProvider_rejects_witness:
  "isl (base32_DecodeString exampleLib
          (formSecret (exampleSession\<lparr>formName := ''mail'', formSecret := ''not-base32!''\<rparr>)))
   \<and> addProvider exampleLib exampleHotp (at 1700000000) (at 1700000000)
        (exampleSession\<lparr>formName := ''mail'', formSecret := ''not-base32!''\<rparr>, exampleOS)
      = Inr (exampleSession\<lparr>formName := ''mail'', formSecret := ''not-base32!'',
               otpView := ''[red]Error: Secret must be a valid base32 string[white]''\<rparr>,
             exampleOS)"
proof -
  let ?s = "exampleSession\<lparr>formName := ''mail'', formSecret := ''not-base32!''\<rparr>"
  have h: "isl (base32_DecodeString exampleLib (formSecret ?s))"
    by (simp add: exampleLib_def)
  have "addProvider exampleLib exampleHotp (at 1700000000) (at 1700000000) (?s, exampleOS)
      = Inr (?s\<lparr>otpView := ''[red]Error: Secret must be a valid base32 string[white]''\<rparr>,
             exampleOS)"
    by (simp add: addProvider_def Let_def exampleLib_def)
  with h addProvider_rejects [OF disjI2 [OF disjI2 [OF h]],
      of exampleHotp "at 1700000000" "at 1700000000" exampleOS]
  show ?thesis by simp
qed

subsection \<open>Code and provider name of the session\<close>

lemma generateAndDisplayOTP_currentProvider:
  assumes "generateAndDisplayOTP hotp tg ts s = Inr s'"
  shows "currentProvider s' =
          (if providers s = [] \<or> selectedProviderIndex s = - 1 then []
           else case generateTOTP hotp (Secret (providers s ! nat (selectedProviderIndex s))) tg of
                  Inl e \<Rightarrow> [] | Inr otp \<Rightarrow> Name (providers s ! nat (selectedProviderIndex s)))"
  using assms
  by (auto simp: generateAndDisplayOTP_def index_def updateCountdown_frame
      split: if_splits sum.splits)

lemma generateTOTP_nonempty:
  "codesNonEmpty hotp \<Longrightarrow> generateTOTP hotp secret t \<noteq> Inr []"
  by (auto simp: codesNonEmpty_def generateTOTP_def totp_GenerateCode_def split: sum.splits)

lemma generate_stable:
  assumes names: "list_all (\<lambda>p. Name p \<noteq> []) (providers s)"
    and codes: "codesNonEmpty hotp"
    and ix: "selectedProviderIndex s = - 1 \<or> selectionValid s"
  shows "\<exists>s'. generateAndDisplayOTP hotp tGen tShow s = Inr s'
          \<and> providers s' = providers s \<and> selectedProviderIndex s' = selectedProviderIndex s
          \<and> stable s'
          \<and> (present s' \<longleftrightarrow> selectionValid s' \<and> generationSucceeds hotp tGen s')"
proof -
  have "\<exists>s'. generateAndDisplayOTP hotp tGen tShow s = Inr s'"
    using ix by (intro generateAndDisplayOTP_no_panic) (auto simp: selectionValid_def)
  then obtain s' where r: "generateAndDisplayOTP hotp tGen tShow s = Inr s'" ..
  note f = generateAndDisplayOTP_Inr [OF r] generateAndDisplayOTP_currentProvider [OF r]
  have ne: "selectionValid s \<Longrightarrow> Name (providers s ! nat (selectedProviderIndex s)) \<noteq> []"
    using names by (auto simp: selectionValid_def list_all_length)
  have g: "generateTOTP hotp x tGen \<noteq> Inr []" for x
    using codes by (rule generateTOTP_nonempty)
  have v: "selectionValid s \<Longrightarrow> providers s \<noteq> [] \<and> selectedProviderIndex s \<noteq> - 1"
    by (auto simp: selectionValid_def)
  have "stable s'"
    using names ix ne g v
    unfolding stable_def present_def absent_def f selectionValid_def [of s']
    by (auto simp: selectionValid_def split: sum.splits)
  moreover have "present s' \<longleftrightarrow> selectionValid s' \<and> generationSucceeds hotp tGen s'"
    using ix ne g v
    unfolding present_def generationSucceeds_def f selectionValid_def [of s']
    by (auto simp: selectionValid_def split: sum.splits)
  ultimately show ?thesis using r f(1,2) by simp
qed

lemma select_stable:
  assumes st: "stable s" and codes: "codesNonEmpty hotp"
    and i: "i = - 1 \<or> (0 \<le> i \<and> i < int (length (providers s)))"
  shows "\<exists>s'. selectProvider hotp tGen tShow i s = Inr s' \<and> stable s'
              \<and> (present s' \<longleftrightarrow> selectionValid s' \<and> generationSucceeds hotp tGen s')"
proof -
  let ?s = "s\<lparr>selectedProviderIndex := i\<rparr>"
  have "list_all (\<lambda>p. Name p \<noteq> []) (providers ?s)"
    using st by (simp add: stable_def)
  moreover have "selectedProviderIndex ?s = - 1 \<or> selectionValid ?s"
    using i by (auto simp: selectionValid_def)
  ultimately show ?thesis
    using generate_stable [OF _ codes, of ?s tGen tShow]
    by (auto simp: selectProvider_def)
qed

lemma coarse_stable:
  assumes st: "stable s" and codes: "codesNonEmpty hotp"
  shows "\<exists>s'. coarseTick hotp tGen tShow s = Inr s' \<and> stable s'
              \<and> (if selectionValid s then present s' \<longleftrightarrow> generationSucceeds hotp tGen s'
                  else s' = s)"
proof (cases "selectionValid s")
  case True
  then have guard: "length (providers s) > 0 \<and> selectedProviderIndex s \<ge> 0"
    by (auto simp: selectionValid_def)
  have "list_all (\<lambda>p. Name p \<noteq> []) (providers s)"
    and "selectedProviderIndex s = - 1 \<or> selectionValid s"
    using st by (simp_all add: stable_def)
  from generate_stable [OF this(1) codes this(2), of tGen tShow]
  obtain s' where "generateAndDisplayOTP hotp tGen tShow s = Inr s'" "stable s'"
    "present s' \<longleftrightarrow> selectionValid s' \<and> generationSucceeds hotp tGen s'"
    "providers s' = providers s" "selectedProviderIndex s' = selectedProviderIndex s"
    by blast
  moreover from this True have "selectionValid s'"
    by (simp add: selectionValid_def)
  ultimately show ?thesis
    using True guard by (simp add: coarseTick_def)
next
  case False
  then have "selectedProviderIndex s = - 1"
    using st by (auto simp: stable_def)
  then show ?thesis
    using False st by (simp add: coarseTick_def)
qed

lemma add_stable:
  assumes st: "stable s" and codes: "codesNonEmpty hotp"
  shows "\<exists>s' os'. addProvider lib hotp tGen tShow (s, os) = Inr (s', os') \<and> stable s'
           \<and> ((currentOTP s' = currentOTP s \<and> currentProvider s' = currentProvider s
                 \<and> selectedProviderIndex s' = selectedProviderIndex s)
               \<or> (selectedProviderIndex s' = int (length (providers s')) - 1
                   \<and> selectionValid s'
                   \<and> (present s' \<longleftrightarrow> generationSucceeds hotp tGen s')))"
proof -
  consider (rejected) "formName s = [] \<or> formSecret s = [] \<or> isl (base32_DecodeString lib (formSecret s))"
    | (accepted) decoded where "formName s \<noteq> []" "formSecret s \<noteq> []"
        "base32_DecodeString lib (formSecret s) = Inr decoded"
    by (cases "base32_DecodeString lib (formSecret s)") auto
  then show ?thesis
  proof cases
    case rejected
    then have "\<exists>msg. addProvider lib hotp tGen tShow (s, os) = Inr (s\<lparr>otpView := msg\<rparr>, os)"
      by (auto simp: addProvider_def Let_def split: sum.splits)
    then obtain msg where "addProvider lib hotp tGen tShow (s, os) = Inr (s\<lparr>otpView := msg\<rparr>, os)" ..
    moreover have "stable (s\<lparr>otpView := msg\<rparr>)"
      using st by (simp add: stable_def present_def absent_def selectionValid_def)
    ultimately show ?thesis by auto
  next
    case accepted
    let ?new = "\<lparr>Name = formName s, Secret = formSecret s\<rparr>"
    let ?ps = "providers s @ [?new]"
    let ?s1 = "s\<lparr>providers := ?ps,
                  providerList := providerList s @ [(Name ?new, 49 + int (length ?ps) - 1)]\<rparr>"
    obtain r os1 where sv: "saveProviders lib ?ps ProvidersFilePath os = (r, os1)"
      by (cases "saveProviders lib ?ps ProvidersFilePath os")
    show ?thesis
    proof (cases r)
      case (Some err)
      let ?s' = "?s1\<lparr>otpView := ''[red]Error saving providers: '' @ escapeBrackets err @ ''[white]''\<rparr>"
      have "addProvider lib hotp tGen tShow (s, os) = Inr (?s', os1)"
        using accepted sv Some by (simp add: addProvider_def Let_def)
      moreover have "stable ?s'"
        using st accepted(1) by (auto simp: stable_def present_def absent_def selectionValid_def)
      ultimately show ?thesis by auto
    next
      case None
      let ?s2 = "?s1\<lparr>selectedProviderIndex := int (length ?ps) - 1,
                      formName := [], formSecret := [],
                      currentOTP := [], currentProvider := [],
                      otpView := addedText (escapeBrackets (formName s))
                                   (escapeBrackets ProvidersFilePath)\<rparr>"
      have n: "list_all (\<lambda>p. Name p \<noteq> []) (providers ?s2)"
        using st accepted(1) by (simp add: stable_def)
      have v: "selectedProviderIndex ?s2 = - 1 \<or> selectionValid ?s2"
        by (simp add: selectionValid_def)
      from generate_stable [OF n codes v, of tGen tShow]
      obtain s3 where g: "generateAndDisplayOTP hotp tGen tShow ?s2 = Inr s3" "stable s3"
        "present s3 \<longleftrightarrow> selectionValid s3 \<and> generationSucceeds hotp tGen s3"
        "providers s3 = providers ?s2" "selectedProviderIndex s3 = selectedProviderIndex ?s2"
        by blast
      have "addProvider lib hotp tGen tShow (s, os) = Inr (s3, os1)"
        using accepted sv None g(1) by (simp add: addProvider_def Let_def)
      moreover have "selectionValid s3" "selectedProviderIndex s3 = int (length (providers s3)) - 1"
        using g(4,5) by (simp_all add: selectionValid_def)
      ultimately show ?thesis using g(2,3) by auto
    qed
  qed
qed

text \<open>
  C4. The claim: after select, coarse refresh and add provider, \<open>currentOTP\<close> and
  \<open>currentProvider\<close> are both non-empty or both empty, and non-empty exactly when the
  selected index refers to a provider and the last generation for it succeeded.

  \<open>loadProviders\<close> takes the names as the file gives them. With a provider whose name is
  empty in the list, selecting it stores a code and an empty provider name.
\<close>

theorem select_empty_name_counterexample:
  "selectProvider exampleHotp (at 1700000000) (at 1700000001) 0
     (initialSession [\<lparr>Name = [], Secret = ''JBSWY3DPEHPK3PXP''\<rparr>])
   = Inr ((initialSession [\<lparr>Name = [], Secret = ''JBSWY3DPEHPK3PXP''\<rparr>])
            \<lparr>selectedProviderIndex := 0, currentOTP := ''666666'', currentProvider := []\<rparr>)"
  by (simp add: run_simps)

text \<open>
  C4, amended. Let the session be stable, let the HOTP routine never return an empty
  passcode, and let the index given to select be -1 or the index of a listed provider.
  Then select, coarse refresh and add provider return without panic in a stable session,
  so code and name are again both present or both absent. Moreover: after select they
  are present exactly when the selection is valid and the generation just made
  succeeded; a coarse refresh with a valid selection leaves them present exactly when its
  generation succeeded, and without a valid selection changes nothing; add provider either
  leaves code, name and index as they were (input rejected, or saving failed), or selects
  the new provider and leaves them present exactly when the generation for it succeeded.
\<close>

theorem session_stable:
  assumes st: "stable s" and codes: "codesNonEmpty hotp"
    and i: "i = - 1 \<or> (0 \<le> i \<and> i < int (length (providers s)))"
  shows "(\<exists>s'. selectProvider hotp tGen tShow i s = Inr s' \<and> stable s'
              \<and> (present s' \<longleftrightarrow> selectionValid s' \<and> generationSucceeds hotp tGen s'))
       \<and> (\<exists>s'. coarseTick hotp tGen tShow s = Inr s' \<and> stable s'
              \<and> (if selectionValid s then present s' \<longleftrightarrow> generationSucceeds hotp tGen s'
                  else s' = s))
       \<and> (\<exists>s' os'. addProvider lib hotp tGen tShow (s, os) = Inr (s', os') \<and> stable s'
              \<and> ((currentOTP s' = currentOTP s \<and> currentProvider s' = currentProvider s
                    \<and> selectedProviderIndex s' = selectedProviderIndex s)
                  \<or> (selectedProviderIndex s' = int (length (providers s')) - 1
                      \<and> selectionValid s'
                      \<and> (present s' \<longleftrightarrow> generationSucceeds hotp tGen s'))))"
  using select_stable [OF st codes i] coarse_stable [OF st codes] add_stable [OF st codes]
  by blast

lemma decimal_nonempty: "decimal n \<noteq> []"
  by (subst decimal.simps) simp

theorem session_stable_witness:
  "stable exampleSession \<and> codesNonEmpty exampleHotp
   \<and> (\<exists>s'. selectProvider exampleHotp (at 1700000000) (at 1700000001) 0 exampleSession = Inr s'
          \<and> stable s' \<and> present s' \<and> currentOTP s' = ''666666'')
   \<and> (\<exists>s'. coarseTick exampleHotp (at 1700000000) (at 1700000001) exampleSession = Inr s'
          \<and> s' = exampleSession)
   \<and> (\<exists>s' os'. addProvider exampleLib exampleHotp (at 1700000000) (at 1700000001)
                  (exampleSession, exampleOS) = Inr (s', os') \<and> stable s' \<and> absent s')"
proof -
  have st: "stable exampleSession"
    by (simp add: stable_def exampleSession_def initialSession_def absent_def)
  have codes: "codesNonEmpty exampleHotp"
    by (simp add: codesNonEmpty_def exampleHotp_def decimal_nonempty)
  have i: "(0::int) = - 1 \<or> (0 \<le> (0::int) \<and> 0 < int (length (providers exampleSession)))"
    by (simp add: exampleSession_def initialSession_def)
  have sel: "selectProvider exampleHotp (at 1700000000) (at 1700000001) 0 exampleSession =
       Inr (exampleSession\<lparr>selectedProviderIndex := 0, currentOTP := ''666666'',
              currentProvider := ''work'', otpView := countdownText ''work'' ''666666'' 9\<rparr>)"
    by (simp add: run_simps)
  have nv: "\<not> selectionValid exampleSession"
    by (simp add: selectionValid_def exampleSession_def initialSession_def)
  have add: "addProvider exampleLib exampleHotp (at 1700000000) (at 1700000001)
                  (exampleSession, exampleOS)
             = Inr (exampleSession\<lparr>otpView := ''[red]Error: Provider name cannot be empty[white]''\<rparr>,
                    exampleOS)"
    by (simp add: addProvider_def exampleSession_def initialSession_def)
  from session_stable [OF st codes i, of "at 1700000000" "at 1700000001" exampleLib exampleOS]
    st codes sel nv add
  show ?thesis
    by (auto simp: present_def absent_def exampleSession_def initialSession_def)
qed

subsection \<open>White space around a secret read from a file\<close>

lemma HasPrefix_iff: "HasPrefix s p \<longleftrightarrow> (\<exists>r. s = p @ r)"
proof
  assume "HasPrefix s p"
  then have "s = p @ drop (length p) s"
    by (metis HasPrefix_def append_take_drop_id)
  then show "\<exists>r. s = p @ r" ..
next
  assume "\<exists>r. s = p @ r"
  then show "HasPrefix s p" by (auto simp: HasPrefix_def)
qed

lemma HasSuffix_iff: "HasSuffix s p \<longleftrightarrow> (\<exists>r. s = r @ p)"
proof
  assume "HasSuffix s p"
  then have "s = take (length s - length p) s @ p"
    by (metis HasSuffix_def append_take_drop_id)
  then show "\<exists>r. s = r @ p" ..
next
  assume "\<exists>r. s = r @ p"
  then show "HasSuffix s p" by (auto simp: HasSuffix_def)
qed

lemma whiteSpace_prefix_free:
  "\<forall>a\<in>set whiteSpace. \<forall>b\<in>set whiteSpace. HasPrefix a b \<longrightarrow> a = b"
  by (simp add: whiteSpace_def HasPrefix_def)

lemma whiteSpace_suffix_free:
  "\<forall>a\<in>set whiteSpace. \<forall>b\<in>set whiteSpace. HasSuffix a b \<longrightarrow> a = b"
  by (simp add: whiteSpace_def HasSuffix_def)

lemma leadingSpace_token:
  assumes "w \<in> set whiteSpace"
  shows "leadingSpace (w @ x) = length w"
proof -
  have "HasPrefix (w @ x) w" by (simp add: HasPrefix_def)
  with assms obtain v where f: "find (HasPrefix (w @ x)) whiteSpace = Some v"
    by (cases "find (HasPrefix (w @ x)) whiteSpace") (auto simp: find_None_iff)
  then have v: "v \<in> set whiteSpace" "HasPrefix (w @ x) v"
    by (auto simp: find_Some_iff)
  then obtain r where r: "w @ x = v @ r" by (auto simp: HasPrefix_iff)
  then have "HasPrefix w v \<or> HasPrefix v w"
    by (auto simp: HasPrefix_iff append_eq_append_conv2)
  with assms v(1) have "v = w"
    using whiteSpace_prefix_free by blast
  with f show ?thesis by (simp add: leadingSpace_def)
qed

lemma trailingSpace_token:
  assumes "w \<in> set whiteSpace"
  shows "trailingSpace (x @ w) = length w"
proof -
  have "HasSuffix (x @ w) w" by (simp add: HasSuffix_def)
  with assms obtain v where f: "find (HasSuffix (x @ w)) whiteSpace = Some v"
    by (cases "find (HasSuffix (x @ w)) whiteSpace") (auto simp: find_None_iff)
  then have v: "v \<in> set whiteSpace" "HasSuffix (x @ w) v"
    by (auto simp: find_Some_iff)
  then obtain r where r: "x @ w = r @ v" by (auto simp: HasSuffix_iff)
  then have "HasSuffix w v \<or> HasSuffix v w"
    by (auto simp: HasSuffix_iff append_eq_append_conv2)
  with assms v(1) have "v = w"
    using whiteSpace_suffix_free by blast
  with f show ?thesis by (simp add: trailingSpace_def)
qed

lemma whiteSpace_ne: "w \<in> set whiteSpace \<Longrightarrow> w \<noteq> []"
  by (auto simp: whiteSpace_def)

lemma find_whiteSpace:
  assumes "find P whiteSpace = Some v"
  shows "v \<in> set whiteSpace" "P v" "v \<noteq> []"
proof -
  from assms show "v \<in> set whiteSpace" "P v"
    by (auto simp: find_Some_iff)
  then show "v \<noteq> []" by (simp add: whiteSpace_ne)
qed

lemma leadingSpace_0_iff: "leadingSpace s = 0 \<longleftrightarrow> (\<forall>w\<in>set whiteSpace. \<not> HasPrefix s w)"
proof (cases "find (HasPrefix s) whiteSpace")
  case None
  then have "leadingSpace s = 0" by (simp add: leadingSpace_def)
  moreover from None have "\<forall>w\<in>set whiteSpace. \<not> HasPrefix s w"
    by (simp add: find_None_iff)
  ultimately show ?thesis by simp
next
  case (Some v)
  then have "leadingSpace s = length v" by (simp add: leadingSpace_def)
  with find_whiteSpace [OF Some] show ?thesis by auto
qed

lemma trailingSpace_0_iff: "trailingSpace s = 0 \<longleftrightarrow> (\<forall>w\<in>set whiteSpace. \<not> HasSuffix s w)"
proof (cases "find (HasSuffix s) whiteSpace")
  case None
  then have "trailingSpace s = 0" by (simp add: trailingSpace_def)
  moreover from None have "\<forall>w\<in>set whiteSpace. \<not> HasSuffix s w"
    by (simp add: find_None_iff)
  ultimately show ?thesis by simp
next
  case (Some v)
  then have "trailingSpace s = length v" by (simp add: trailingSpace_def)
  with find_whiteSpace [OF Some] show ?thesis by auto
qed

lemma TrimLeftSpace_tokens:
  "set ws \<subseteq> set whiteSpace \<Longrightarrow> TrimLeftSpace (concat ws @ x) = TrimLeftSpace x"
proof (induction ws)
  case Nil
  then show ?case by simp
next
  case (Cons w ws)
  then have w: "w \<in> set whiteSpace" by simp
  then have "leadingSpace (w @ concat ws @ x) = length w" "w \<noteq> []"
    by (simp_all add: leadingSpace_token whiteSpace_ne)
  then have "TrimLeftSpace (w @ concat ws @ x) = TrimLeftSpace (concat ws @ x)"
    by (subst TrimLeftSpace.simps) simp
  with Cons show ?case by simp
qed

lemma TrimRightSpace_tokens:
  "set ws \<subseteq> set whiteSpace \<Longrightarrow> TrimRightSpace (x @ concat ws) = TrimRightSpace x"
proof (induction ws rule: rev_induct)
  case Nil
  then show ?case by simp
next
  case (snoc w ws)
  then have w: "w \<in> set whiteSpace" by simp
  then have "trailingSpace ((x @ concat ws) @ w) = length w" "w \<noteq> []"
    using trailingSpace_token [of w "x @ concat ws"] whiteSpace_ne [of w] by simp_all
  then have "TrimRightSpace ((x @ concat ws) @ w) = TrimRightSpace (x @ concat ws)"
    by (subst TrimRightSpace.simps) simp
  with snoc show ?case by simp
qed

lemma whiteSpace_bytes:
  assumes "w \<in> set whiteSpace"
  shows "\<not> continuation (hd w)" and "\<forall>c\<in>set (tl w). continuation c"
  using assms by (auto simp: whiteSpace_def continuation_def byte_def)

lemma concat_whiteSpace_hd:
  "set ws \<subseteq> set whiteSpace \<Longrightarrow> concat ws \<noteq> [] \<Longrightarrow> \<not> continuation (hd (concat ws))"
proof (induction ws)
  case Nil
  then show ?case by simp
next
  case (Cons w ws)
  then have "w \<in> set whiteSpace" by simp
  then have "w \<noteq> []" "\<not> continuation (hd w)"
    by (simp_all add: whiteSpace_ne whiteSpace_bytes)
  then show ?case by simp
qed

lemma leadingSpace_before_tokens:
  assumes bare: "leadingSpace s = 0" and ne: "s \<noteq> []" and ws: "set ws \<subseteq> set whiteSpace"
  shows "leadingSpace (s @ concat ws) = 0"
proof -
  have "\<not> HasPrefix (s @ concat ws) w" if w: "w \<in> set whiteSpace" for w
  proof
    assume "HasPrefix (s @ concat ws) w"
    then obtain r where "s @ concat ws = w @ r" by (auto simp: HasPrefix_iff)
    then consider u where "s = w @ u" | u where "w = s @ u" "u \<noteq> []" "concat ws = u @ r"
      by (auto simp: append_eq_append_conv2) (metis append.right_neutral)
    then show False
    proof cases
      case 1
      then have "HasPrefix s w" by (auto simp: HasPrefix_iff)
      with bare w show False by (simp add: leadingSpace_0_iff)
    next
      case 2
      then have "hd u \<in> set (tl w)" using ne by (cases s; cases u) auto
      then have "continuation (hd u)" using whiteSpace_bytes(2) [OF w] by blast
      moreover have "hd (concat ws) = hd u" "concat ws \<noteq> []" using 2 by simp_all
      ultimately show False using concat_whiteSpace_hd [OF ws] by simp
    qed
  qed
  then show ?thesis by (simp add: leadingSpace_0_iff)
qed

lemma TrimSpace_surrounded:
  assumes "leadingSpace s = 0" "trailingSpace s = 0"
    and "set lead \<subseteq> set whiteSpace" "set trail \<subseteq> set whiteSpace"
  shows "TrimSpace (concat lead @ s @ concat trail) = s"
proof -
  have left: "TrimLeftSpace (concat lead @ s @ concat trail) = TrimLeftSpace (s @ concat trail)"
    using assms(3) by (rule TrimLeftSpace_tokens)
  have "TrimRightSpace (TrimLeftSpace (s @ concat trail)) = s"
  proof (cases "s = []")
    case True
    have "TrimLeftSpace (concat trail @ []) = TrimLeftSpace []"
      using assms(4) by (rule TrimLeftSpace_tokens)
    moreover have "TrimLeftSpace [] = []" "TrimRightSpace [] = []"
      using leadingSpace_le [of "[]"] trailingSpace_le [of "[]"]
      by (simp_all add: TrimLeftSpace.simps TrimRightSpace.simps)
    ultimately show ?thesis using True by simp
  next
    case False
    then have "leadingSpace (s @ concat trail) = 0"
      using assms(1,4) by (simp add: leadingSpace_before_tokens)
    then have "TrimLeftSpace (s @ concat trail) = s @ concat trail"
      by (subst TrimLeftSpace.simps) simp
    moreover have "TrimRightSpace (s @ concat trail) = TrimRightSpace s"
      using assms(4) by (rule TrimRightSpace_tokens)
    moreover have "TrimRightSpace s = s"
      using assms(2) by (subst TrimRightSpace.simps) simp
    ultimately show ?thesis by simp
  qed
  with left show ?thesis by (simp add: TrimSpace_def)
qed

lemma TrimLeftSpace_bare: "leadingSpace (TrimLeftSpace s) = 0"
proof (induction s rule: TrimLeftSpace.induct)
  case (1 s)
  then show ?case by (subst TrimLeftSpace.simps) simp
qed

lemma TrimRightSpace_bare: "trailingSpace (TrimRightSpace s) = 0"
proof (induction s rule: TrimRightSpace.induct)
  case (1 s)
  then show ?case by (subst TrimRightSpace.simps) simp
qed

lemma leadingSpace_take: "leadingSpace s = 0 \<Longrightarrow> leadingSpace (take n s) = 0"
  unfolding leadingSpace_0_iff HasPrefix_iff
  by (metis append.assoc append_take_drop_id)

lemma TrimRightSpace_leading: "leadingSpace s = 0 \<Longrightarrow> leadingSpace (TrimRightSpace s) = 0"
proof (induction s rule: TrimRightSpace.induct)
  case (1 s)
  then show ?case by (subst TrimRightSpace.simps) (simp add: leadingSpace_take)
qed

lemma TrimSpace_bare: "leadingSpace (TrimSpace s) = 0 \<and> trailingSpace (TrimSpace s) = 0"
  by (simp add: TrimSpace_def TrimRightSpace_bare TrimRightSpace_leading TrimLeftSpace_bare)

text \<open>
  C10. Let the extension of the path, in lower case, be \<open>.txt\<close> or \<open>.key\<close>, and let the
  file hold a secret that neither starts nor ends with white space and that the base32
  decoder accepts, with any white-space characters before and after it. Then
  \<open>readSecretFromFile\<close> returns exactly that secret: the white space is removed before
  the decoder sees the text. And whatever file it reads, a secret it returns neither starts
  nor ends with a white-space character.
\<close>

theorem readSecretFromFile_trims:
  assumes ext: "ToLower lib (Ext filePath) = ''.txt'' \<or> ToLower lib (Ext filePath) = ''.key''"
    and content: "os_ReadFile os filePath = Inr (concat lead @ secret @ concat trail)"
    and ws: "set lead \<subseteq> set whiteSpace" "set trail \<subseteq> set whiteSpace"
    and bare: "leadingSpace secret = 0" "trailingSpace secret = 0"
    and valid: "base32_DecodeString lib secret = Inr decoded"
  shows "readSecretFromFile lib os filePath = Inr secret
         \<and> (\<forall>os' path' r. readSecretFromFile lib os' path' = Inr r
               \<longrightarrow> leadingSpace r = 0 \<and> trailingSpace r = 0)"
proof -
  have "TrimSpace (concat lead @ secret @ concat trail) = secret"
    using bare ws by (rule TrimSpace_surrounded)
  then have "readSecretFromFile lib os filePath = Inr secret"
    using ext content valid by (auto simp: readSecretFromFile_def Let_def)
  moreover have "leadingSpace r = 0 \<and> trailingSpace r = 0"
    if "readSecretFromFile lib os' path' = Inr r" for os' path' r
    using that TrimSpace_bare
    by (auto simp: readSecretFromFile_def Let_def split: sum.splits if_splits)
  ultimately show ?thesis by blast
qed

theorem readSecretFromFile_trims_witness:
  "(ToLower exampleLib (Ext ''secret.txt'') = ''.txt''
      \<or> ToLower exampleLib (Ext ''secret.txt'') = ''.key'')
   \<and> os_ReadFile secretFile ''secret.txt''
       = Inr (concat ['' '', [CHR 0x09]] @ ''JBSWY3DPEHPK3PXP'' @ concat [nl])
   \<and> leadingSpace ''JBSWY3DPEHPK3PXP'' = 0 \<and> trailingSpace ''JBSWY3DPEHPK3PXP'' = 0
   \<and> base32_DecodeString exampleLib ''JBSWY3DPEHPK3PXP'' = Inr []
   \<and> readSecretFromFile exampleLib secretFile ''secret.txt'' = Inr ''JBSWY3DPEHPK3PXP''"
proof -
  have ext: "ToLower exampleLib (Ext ''secret.txt'') = ''.txt''
      \<or> ToLower exampleLib (Ext ''secret.txt'') = ''.key''"
    by (simp add: Ext_def ToLower_def byte_def asciiLower_def)
  have content: "os_ReadFile secretFile ''secret.txt''
       = Inr (concat ['' '', [CHR 0x09]] @ ''JBSWY3DPEHPK3PXP'' @ concat [nl])"
    by (simp add: os_ReadFile_def secretFile_def exampleOS_def)
  have ws: "set ['' '', [CHR 0x09]] \<subseteq> set whiteSpace" "set [nl] \<subseteq> set whiteSpace"
    by (simp_all add: whiteSpace_def nl_def)
  have bare: "leadingSpace ''JBSWY3DPEHPK3PXP'' = 0" "trailingSpace ''JBSWY3DPEHPK3PXP'' = 0"
    by (simp_all add: leadingSpace_def trailingSpace_def whiteSpace_def HasPrefix_def
        HasSuffix_def)
  have valid: "base32_DecodeString exampleLib ''JBSWY3DPEHPK3PXP'' = Inr []"
    by (simp add: exampleLib_def)
  from readSecretFromFile_trims [OF ext content ws bare valid] ext content bare valid
  show ?thesis by blast
qed

subsection \<open>The order of a directory listing\<close>

lemma parent_first:
  assumes s: "sortsBy (lessEntry lib) (p # rest) ys"
    and p: "IsParent p"
  shows "\<exists>post. ys = p # post \<and> mset post = mset rest
           \<and> sorted_wrt (\<lambda>a b. \<not> lessEntry lib b a) post"
proof -
  from s have m: "mset ys = mset (p # rest)"
    and o: "sorted_wrt (\<lambda>a b. \<not> lessEntry lib b a) ys"
    by (simp_all add: sortsBy_def)
  from m have "p \<in> set ys"
    by (metis list.set_intros(1) set_mset_mset)
  then obtain pre post where ys: "ys = pre @ p # post"
    by (auto simp: in_set_conv_decomp)
  have "pre = []"
  proof (rule ccontr)
    assume "pre \<noteq> []"
    then obtain x where "x \<in> set pre" by (cases pre) auto
    with o ys have "\<not> lessEntry lib p x" by (auto simp: sorted_wrt_append)
    with p show False by (simp add: lessEntry_def)
  qed
  with ys m o show ?thesis by auto
qed

lemma directories_first:
  assumes "sorted_wrt (\<lambda>a b. \<not> lessEntry lib b a) post"
    and "\<forall>e\<in>set post. \<not> IsParent e"
  shows "post = filter IsDir post @ filter (\<lambda>e. \<not> IsDir e) post"
  using assms
proof (induction post)
  case Nil
  then show ?case by simp
next
  case (Cons a post)
  then have ih: "post = filter IsDir post @ filter (\<lambda>e. \<not> IsDir e) post" by simp
  show ?case
  proof (cases "IsDir a")
    case True
    with ih show ?thesis by simp
  next
    case False
    have "\<not> IsDir b" if "b \<in> set post" for b
    proof
      assume "IsDir b"
      moreover from Cons.prems that have "\<not> lessEntry lib b a" "\<not> IsParent b" "\<not> IsParent a"
        by auto
      ultimately show False using False by (simp add: lessEntry_def)
    qed
    then have "filter IsDir post = []" "filter (\<lambda>e. \<not> IsDir e) post = post"
      by (simp_all add: filter_empty_conv filter_id_conv)
    with False show ?thesis by simp
  qed
qed

lemma names_in_order:
  assumes "sorted_wrt (\<lambda>a b. \<not> lessEntry lib b a) post"
    and "\<forall>e\<in>set post. \<not> IsParent e \<and> IsDir e = d"
  shows "sorted_wrt (\<lambda>a b. ToLower lib (entryName a) \<le> ToLower lib (entryName b)) post"
proof (rule sorted_wrt_mono_rel [OF _ assms(1)])
  fix a b
  assume "a \<in> set post" "b \<in> set post" "\<not> lessEntry lib b a"
  with assms(2) show "ToLower lib (entryName a) \<le> ToLower lib (entryName b)"
    by (auto simp: lessEntry_def not_less)
qed

lemma collectEntries_rest:
  "\<exists>rest. collectEntries lib absPath entries =
      \<lparr>entryName = ''..'', entryPath = filepath_Dir lib absPath, IsDir = True, IsParent = True\<rparr> # rest
    \<and> (\<forall>e\<in>set rest. \<not> IsParent e \<and> \<not> HasPrefix (entryName e) ''.'')
    \<and> map (\<lambda>e. (entryName e, IsDir e)) rest
        = filter (\<lambda>(name, isDir). \<not> HasPrefix name ''.'') entries"
  by (auto simp: collectEntries_def comp_def case_prod_beta)

lemma mset_insertLeft: "mset (insertLeft before x acc) = add_mset x (mset acc)"
  by (induction acc) auto

lemma mset_insertion: "mset (foldl (\<lambda>sorted x. insertLeft before x sorted) acc xs) = mset acc + mset xs"
  by (induction xs arbitrary: acc) (auto simp: mset_insertLeft)

lemma set_insertLeft: "set (insertLeft before x acc) = insert x (set acc)"
  by (induction acc) auto

lemma lessEntry_negtrans:
  "\<not> lessEntry lib a b \<Longrightarrow> \<not> lessEntry lib b c \<Longrightarrow> \<not> lessEntry lib a c"
  by (auto simp: lessEntry_def split: if_splits)

lemma lessEntry_asym:
  "lessEntry lib a b \<Longrightarrow> \<not> (IsParent a \<and> IsParent b) \<Longrightarrow> \<not> lessEntry lib b a"
  by (auto simp: lessEntry_def split: if_splits)

lemma insertLeft_sorted:
  assumes "sorted_wrt (\<lambda>a b. \<not> lessEntry lib a b) acc"
    and "IsParent x \<longrightarrow> (\<forall>y\<in>set acc. \<not> IsParent y)"
  shows "sorted_wrt (\<lambda>a b. \<not> lessEntry lib a b) (insertLeft (lessEntry lib) x acc)"
  using assms
proof (induction acc)
  case Nil
  then show ?case by simp
next
  case (Cons l ls)
  show ?case
  proof (cases "lessEntry lib x l")
    case True
    then have "\<not> lessEntry lib l x"
      using Cons.prems(2) by (intro lessEntry_asym) auto
    moreover have "sorted_wrt (\<lambda>a b. \<not> lessEntry lib a b) (insertLeft (lessEntry lib) x ls)"
      using Cons by simp
    ultimately show ?thesis using True Cons.prems(1) by (auto simp: set_insertLeft)
  next
    case False
    then have "\<not> lessEntry lib x y" if "y \<in> set ls" for y
      using that Cons.prems(1) lessEntry_negtrans by auto
    with False Cons.prems(1) show ?thesis by auto
  qed
qed

lemma insertion_sorted:
  assumes "sorted_wrt (\<lambda>a b. \<not> lessEntry lib a b) acc"
    and "length (filter IsParent (acc @ xs)) \<le> 1"
  shows "sorted_wrt (\<lambda>a b. \<not> lessEntry lib a b)
           (foldl (\<lambda>sorted x. insertLeft (lessEntry lib) x sorted) acc xs)"
  using assms
proof (induction xs arbitrary: acc)
  case Nil
  then show ?case by simp
next
  case (Cons x xs)
  have one: "IsParent x \<longrightarrow> (\<forall>y\<in>set acc. \<not> IsParent y)"
  proof (intro impI ballI notI)
    fix y assume "IsParent x" "y \<in> set acc" "IsParent y"
    then have "filter IsParent acc \<noteq> []" by (auto simp: filter_empty_conv)
    then have "1 \<le> length (filter IsParent acc)" by (cases "filter IsParent acc") auto
    with \<open>IsParent x\<close> Cons.prems(2) show False by simp
  qed
  have "sorted_wrt (\<lambda>a b. \<not> lessEntry lib a b) (insertLeft (lessEntry lib) x acc)"
    using Cons.prems(1) one by (rule insertLeft_sorted)
  moreover have "mset (filter IsParent (insertLeft (lessEntry lib) x acc @ xs))
                 = mset (filter IsParent (acc @ x # xs))"
    by (simp add: mset_insertLeft)
  then have "length (filter IsParent (insertLeft (lessEntry lib) x acc @ xs)) \<le> 1"
    using Cons.prems(2) by (metis size_mset)
  ultimately show ?case using Cons.IH by simp
qed

lemma insertionSort_sortsBy:
  assumes "length (filter IsParent xs) \<le> 1"
  shows "sortsBy (lessEntry lib) xs (insertionSort (lessEntry lib) xs)"
proof -
  have "sorted_wrt (\<lambda>a b. \<not> lessEntry lib a b)
          (foldl (\<lambda>sorted x. insertLeft (lessEntry lib) x sorted) [] xs)"
    using assms by (intro insertion_sorted) simp_all
  then have "sorted_wrt (\<lambda>a b. \<not> lessEntry lib b a) (insertionSort (lessEntry lib) xs)"
    by (simp add: insertionSort_def sorted_wrt_rev)
  then show ?thesis
    by (simp add: sortsBy_def insertionSort_def mset_insertion)
qed

lemma insertionSort_collectEntries:
  "sortsBy (lessEntry lib) (collectEntries lib absPath entries)
     (insertionSort (lessEntry lib) (collectEntries lib absPath entries))"
proof (rule insertionSort_sortsBy)
  obtain rest where "collectEntries lib absPath entries =
      \<lparr>entryName = ''..'', entryPath = filepath_Dir lib absPath, IsDir = True, IsParent = True\<rparr> # rest"
    "\<forall>e\<in>set rest. \<not> IsParent e \<and> \<not> HasPrefix (entryName e) ''.''"
    using collectEntries_rest by blast
  then show "length (filter IsParent (collectEntries lib absPath entries)) \<le> 1"
    by (simp add: filter_empty_conv [THEN iffD2])
qed

text \<open>
  C8. Let the directory be readable: the path is given or the working directory is known,
  its absolute form is found, and \<open>ReadDir\<close> returns its entries; and let \<open>sort.Slice\<close>
  keep its promise for this call (insertion sort, which Go uses for short slices, keeps
  it for every listing: \<open>insertionSort_collectEntries\<close>). Then \<open>listDirectory\<close> returns
  the parent entry \<open>..\<close> first, then the directories, then the files; each of the two
  groups is in the order of the lower-cased names; no entry after the parent entry has a
  name that starts with a dot; and the entries after the parent entry are, with their
  names and directory flags, exactly the entries of the directory whose names do not
  start with a dot.
\<close>

theorem listDirectory_order:
  assumes dir: "dirPath \<noteq> [] \<and> dir = dirPath \<or> dirPath = [] \<and> Getwd os = Inr dir"
    and abs: "Abs os dir = Inr absPath"
    and readable: "ReadDir os absPath = Inr entries"
    and sorter: "sortsBy (lessEntry lib) (collectEntries lib absPath entries)
                   (sortSlice (lessEntry lib) (collectEntries lib absPath entries))"
  shows "\<exists>dirs regular.
           listDirectory sortSlice lib os dirPath =
             Inr (\<lparr>entryName = ''..'', entryPath = filepath_Dir lib absPath,
                    IsDir = True, IsParent = True\<rparr> # dirs @ regular)
           \<and> list_all (\<lambda>e. IsDir e \<and> \<not> IsParent e) dirs
           \<and> list_all (\<lambda>e. \<not> IsDir e \<and> \<not> IsParent e) regular
           \<and> sorted_wrt (\<lambda>a b. ToLower lib (entryName a) \<le> ToLower lib (entryName b)) dirs
           \<and> sorted_wrt (\<lambda>a b. ToLower lib (entryName a) \<le> ToLower lib (entryName b)) regular
           \<and> list_all (\<lambda>e. \<not> HasPrefix (entryName e) ''.'') (dirs @ regular)
           \<and> mset (map (\<lambda>e. (entryName e, IsDir e)) (dirs @ regular))
               = mset (filter (\<lambda>(name, isDir). \<not> HasPrefix name ''.'') entries)"
proof -
  let ?R = "\<lambda>a b. \<not> lessEntry lib b a"
  let ?parent = "\<lparr>entryName = ''..'', entryPath = filepath_Dir lib absPath,
                   IsDir = True, IsParent = True\<rparr>"
  obtain rest where c: "collectEntries lib absPath entries = ?parent # rest"
    and rest: "\<forall>e\<in>set rest. \<not> IsParent e \<and> \<not> HasPrefix (entryName e) ''.''"
    and names: "map (\<lambda>e. (entryName e, IsDir e)) rest
        = filter (\<lambda>(name, isDir). \<not> HasPrefix name ''.'') entries"
    using collectEntries_rest by blast
  have run: "listDirectory sortSlice lib os dirPath
             = Inr (sortSlice (lessEntry lib) (collectEntries lib absPath entries))"
    using dir abs readable by (auto simp: listDirectory_def)
  from sorter c obtain post
    where ys: "sortSlice (lessEntry lib) (collectEntries lib absPath entries) = ?parent # post"
      and m: "mset post = mset rest" and o: "sorted_wrt ?R post"
    using parent_first [of lib ?parent rest] by auto
  from m have same: "set post = set rest" by (metis set_mset_mset)
  with rest have np: "\<forall>e\<in>set post. \<not> IsParent e" by simp
  let ?dirs = "filter IsDir post" and ?regular = "filter (\<lambda>e. \<not> IsDir e) post"
  have split: "post = ?dirs @ ?regular"
    using o np by (rule directories_first)
  have so: "sorted_wrt ?R ?dirs" "sorted_wrt ?R ?regular"
    using o by (simp_all add: sorted_wrt_filter)
  have "\<forall>e\<in>set ?dirs. \<not> IsParent e \<and> IsDir e = True"
    "\<forall>e\<in>set ?regular. \<not> IsParent e \<and> IsDir e = False"
    using np by simp_all
  then have "sorted_wrt (\<lambda>a b. ToLower lib (entryName a) \<le> ToLower lib (entryName b)) ?dirs"
    "sorted_wrt (\<lambda>a b. ToLower lib (entryName a) \<le> ToLower lib (entryName b)) ?regular"
    using so names_in_order by blast+
  moreover have "list_all (\<lambda>e. IsDir e \<and> \<not> IsParent e) ?dirs"
    "list_all (\<lambda>e. \<not> IsDir e \<and> \<not> IsParent e) ?regular"
    using np by (simp_all add: list_all_iff)
  moreover have "list_all (\<lambda>e. \<not> HasPrefix (entryName e) ''.'') (?dirs @ ?regular)"
    using rest same by (auto simp: list_all_iff)
  moreover have "mset (map (\<lambda>e. (entryName e, IsDir e)) (?dirs @ ?regular))
               = mset (filter (\<lambda>(name, isDir). \<not> HasPrefix name ''.'') entries)"
    using split m names by (metis mset_map)
  moreover have "listDirectory sortSlice lib os dirPath = Inr (?parent # ?dirs @ ?regular)"
    using run ys split by simp
  ultimately show ?thesis by blast
qed

theorem listDirectory_order_witness:
  "Getwd pickerOS = Inr ''/home/user'' \<and> Abs pickerOS ''/home/user'' = Inr ''/home/user''
   \<and> ReadDir pickerOS ''/home/user'' =
       Inr [(''.git'', True), (''Bin'', True), (''Zeta.txt'', False), (''alpha.key'', False),
            (''docs'', True)]
   \<and> listDirectory insertionSort exampleLib pickerOS [] =
       Inr [\<lparr>entryName = ''..'', entryPath = ''.'', IsDir = True, IsParent = True\<rparr>,
            \<lparr>entryName = ''Bin'', entryPath = ''/home/user/Bin'', IsDir = True,
              IsParent = False\<rparr>,
            \<lparr>entryName = ''docs'', entryPath = ''/home/user/docs'', IsDir = True,
              IsParent = False\<rparr>,
            \<lparr>entryName = ''alpha.key'', entryPath = ''/home/user/alpha.key'', IsDir = False,
              IsParent = False\<rparr>,
            \<lparr>entryName = ''Zeta.txt'', entryPath = ''/home/user/Zeta.txt'', IsDir = False,
              IsParent = False\<rparr>]"
proof -
  let ?entries = "[(''.git'', True), (''Bin'', True), (''Zeta.txt'', False),
                   (''alpha.key'', False), (''docs'', True)]"
  have dir: "([]::string) \<noteq> [] \<and> ''/home/user'' = ([]::string)
             \<or> ([]::string) = [] \<and> Getwd pickerOS = Inr ''/home/user''"
    by (simp add: pickerOS_def exampleOS_def)
  have abs: "Abs pickerOS ''/home/user'' = Inr ''/home/user''"
    by (simp add: pickerOS_def exampleOS_def)
  have readable: "ReadDir pickerOS ''/home/user'' = Inr ?entries"
    by (simp add: pickerOS_def)
  have run: "listDirectory insertionSort exampleLib pickerOS [] =
       Inr [\<lparr>entryName = ''..'', entryPath = ''.'', IsDir = True, IsParent = True\<rparr>,
            \<lparr>entryName = ''Bin'', entryPath = ''/home/user/Bin'', IsDir = True,
              IsParent = False\<rparr>,
            \<lparr>entryName = ''docs'', entryPath = ''/home/user/docs'', IsDir = True,
              IsParent = False\<rparr>,
            \<lparr>entryName = ''alpha.key'', entryPath = ''/home/user/alpha.key'', IsDir = False,
              IsParent = False\<rparr>,
            \<lparr>entryName = ''Zeta.txt'', entryPath = ''/home/user/Zeta.txt'', IsDir = False,
              IsParent = False\<rparr>]"
    by (simp add: listDirectory_def pickerOS_def exampleOS_def collectEntries_def HasPrefix_def
        exampleLib_def insertionSort_def lessEntry_def ToLower_def byte_def asciiLower_def
        less_char_def)
  from listDirectory_order [of "[]" "''/home/user''" pickerOS "''/home/user''" ?entries
      exampleLib insertionSort, OF dir abs readable insertionSort_collectEntries]
    dir abs readable run
  show ?thesis by simp
qed

subsection \<open>Saving and loading the provider list\<close>

lemma divmod64:
  fixes x y :: nat
  assumes "y < 64"
  shows "(x * 64 + y) div 64 = x" "(x * 64 + y) mod 64 = y"
  using assms by simp_all

lemma low6:
  fixes b :: nat
  assumes "0x80 \<le> b" "b \<le> 0xBF"
  shows "b mod 64 = b - 128" "b - 128 < 64" "128 + (b - 128) = b"
proof -
  from assms have "b = 2 * 64 + (b - 128)" "b - 128 < 64" by simp_all
  then show "b mod 64 = b - 128" by (metis divmod64(2) mod_mult_self4 mult.commute)
  from assms show "b - 128 < 64" "128 + (b - 128) = b" by simp_all
qed

lemma two_bytes:
  fixes a b :: nat
  assumes "0xC2 \<le> a" "a < 0xE0" "0x80 \<le> b" "b \<le> 0xBF"
  defines "r \<equiv> (a mod 32) * 64 + b mod 64"
  shows "0x80 \<le> r" "r < 0x800" "0xC0 + r div 64 = a" "0x80 + r mod 64 = b"
proof -
  have "a = 6 * 32 + (a - 192)" "a - 192 < 32" using assms(1,2) by simp_all
  then have a: "a mod 32 = a - 192" by (metis mod_less mod_mult_self4 mult.commute)
  note b = low6 [OF assms(3,4)]
  have r: "r = (a - 192) * 64 + (b - 128)" by (simp add: r_def a b)
  show "0x80 \<le> r" "r < 0x800" using assms(1-4) by (simp_all add: r)
  have d: "r div 64 = a - 192" "r mod 64 = b - 128"
    unfolding r using b(2) by (simp_all only: divmod64)
  show "0xC0 + r div 64 = a" using assms(1) unfolding d by simp
  show "0x80 + r mod 64 = b" unfolding d by (rule b(3))
qed

lemma three_bytes:
  fixes a b c :: nat
  assumes "0xE0 \<le> a" "a < 0xF0" "0x80 \<le> b" "b \<le> 0xBF" "0x80 \<le> c" "c \<le> 0xBF"
    and lo: "a = 0xE0 \<longrightarrow> 0xA0 \<le> b" and hi: "a = 0xED \<longrightarrow> b \<le> 0x9F"
  defines "r \<equiv> (a mod 16) * 4096 + (b mod 64) * 64 + c mod 64"
  shows "0x800 \<le> r" "r < 0x10000" "\<not> (0xD800 \<le> r \<and> r \<le> 0xDFFF)"
    "0xE0 + r div 4096 = a" "0x80 + r div 64 mod 64 = b" "0x80 + r mod 64 = c"
proof -
  have "a = 14 * 16 + (a - 224)" "a - 224 < 16" using assms(1,2) by simp_all
  then have a: "a mod 16 = a - 224" by (metis mod_less mod_mult_self4 mult.commute)
  note b = low6 [OF assms(3,4)] and c = low6 [OF assms(5,6)]
  have r: "r = ((a - 224) * 64 + (b - 128)) * 64 + (c - 128)"
    by (simp add: r_def a b c)
  have d: "r div 64 = (a - 224) * 64 + (b - 128)" "r mod 64 = c - 128"
    unfolding r using c(2) by (simp_all only: divmod64)
  have "r div 4096 = r div 64 div 64" by (simp add: div_mult2_eq)
  then have d2: "r div 4096 = a - 224" "r div 64 mod 64 = b - 128"
    unfolding d using b(2) by (simp_all only: divmod64)
  show "0xE0 + r div 4096 = a" using assms(1) unfolding d2 by simp
  show "0x80 + r div 64 mod 64 = b" unfolding d2 by (rule b(3))
  show "0x80 + r mod 64 = c" unfolding d by (rule c(3))
  show "r < 0x10000" using assms(2,4,6) by (simp add: r)
  show "0x800 \<le> r"
  proof (cases "a = 0xE0")
    case True
    with lo show ?thesis by (simp add: r)
  next
    case False
    with assms(1) have "1 \<le> a - 224" by simp
    then have "64 \<le> (a - 224) * 64" by simp
    then show ?thesis by (simp add: r)
  qed
  show "\<not> (0xD800 \<le> r \<and> r \<le> 0xDFFF)"
  proof -
    consider "a - 224 \<le> 12" | "a = 0xED" | "14 \<le> a - 224" using assms(1) by linarith
    then show ?thesis
    proof cases
      case 1
      then have "(a - 224) * 64 \<le> 12 * 64" by simp
      then show ?thesis using b(2) c(2) by (simp add: r)
    next
      case 2
      with hi have "b - 128 < 32" by simp
      then show ?thesis using 2 c(2) by (simp add: r)
    next
      case 3
      then have "14 * 64 \<le> (a - 224) * 64" by simp
      then show ?thesis by (simp add: r)
    qed
  qed
qed

lemma four_bytes:
  fixes a b c d :: nat
  assumes "0xF0 \<le> a" "a \<le> 0xF4" "0x80 \<le> b" "b \<le> 0xBF" "0x80 \<le> c" "c \<le> 0xBF"
    "0x80 \<le> d" "d \<le> 0xBF"
    and lo: "a = 0xF0 \<longrightarrow> 0x90 \<le> b" and hi: "a = 0xF4 \<longrightarrow> b \<le> 0x8F"
  defines "r \<equiv> (a mod 8) * 262144 + (b mod 64) * 4096 + (c mod 64) * 64 + d mod 64"
  shows "0x10000 \<le> r" "r \<le> 0x10FFFF"
    "0xF0 + r div 262144 = a" "0x80 + r div 4096 mod 64 = b" "0x80 + r div 64 mod 64 = c"
    "0x80 + r mod 64 = d"
proof -
  have "a = 30 * 8 + (a - 240)" "a - 240 < 8" using assms(1,2) by simp_all
  then have a: "a mod 8 = a - 240" by (metis mod_less mod_mult_self4 mult.commute)
  note b = low6 [OF assms(3,4)] and c = low6 [OF assms(5,6)] and d = low6 [OF assms(7,8)]
  have r: "r = (((a - 240) * 64 + (b - 128)) * 64 + (c - 128)) * 64 + (d - 128)"
    by (simp add: r_def a b c d)
  have e1: "r div 64 = ((a - 240) * 64 + (b - 128)) * 64 + (c - 128)" "r mod 64 = d - 128"
    unfolding r using d(2) by (simp_all only: divmod64)
  have "r div 4096 = r div 64 div 64" by (simp add: div_mult2_eq)
  then have e2: "r div 4096 = (a - 240) * 64 + (b - 128)" "r div 64 mod 64 = c - 128"
    unfolding e1 using c(2) by (simp_all only: divmod64)
  have "r div 262144 = r div 4096 div 64" by (simp add: div_mult2_eq)
  then have e3: "r div 262144 = a - 240" "r div 4096 mod 64 = b - 128"
    unfolding e2 using b(2) by (simp_all only: divmod64)
  show "0xF0 + r div 262144 = a" using assms(1) unfolding e3 by simp
  show "0x80 + r div 4096 mod 64 = b" unfolding e3 by (rule b(3))
  show "0x80 + r div 64 mod 64 = c" unfolding e2 by (rule c(3))
  show "0x80 + r mod 64 = d" unfolding e1 by (rule d(3))
  show "0x10000 \<le> r"
  proof (cases "a = 0xF0")
    case True
    with lo have "16 \<le> b - 128" by simp
    then show ?thesis by (simp add: r)
  next
    case False
    with assms(1) have "1 \<le> a - 240" by simp
    then have "64 \<le> (a - 240) * 64" by simp
    then show ?thesis by (simp add: r)
  qed
  show "r \<le> 0x10FFFF"
  proof (cases "a = 0xF4")
    case True
    with hi have "b - 128 < 16" by simp
    then show ?thesis using True c(2) d(2) by (simp add: r)
  next
    case False
    with assms(2) have "a - 240 \<le> 3" by simp
    then have "(a - 240) * 64 \<le> 3 * 64" by simp
    then show ?thesis using b(2) c(2) d(2) by (simp add: r)
  qed
qed


lemma char_of_byte: "char_of (byte c) = c"
  by (simp add: byte_def)

lemma acceptRange_cont: "accepted a c1 \<Longrightarrow> 0x80 \<le> byte c1 \<and> byte c1 \<le> 0xBF"
  by (auto simp: accepted_def acceptRange_def split: if_splits)

lemma accepted_bounds:
  "accepted a c1 \<Longrightarrow>
     (a = 0xE0 \<longrightarrow> 0xA0 \<le> byte c1) \<and> (a = 0xED \<longrightarrow> byte c1 \<le> 0x9F)
     \<and> (a = 0xF0 \<longrightarrow> 0x90 \<le> byte c1) \<and> (a = 0xF4 \<longrightarrow> byte c1 \<le> 0x8F)"
  by (auto simp: accepted_def acceptRange_def split: if_splits)

lemma DecodeRune_cases [case_names empty ascii invalid two three four]:
  obtains "s = []"
  | c0 cs where "s = c0 # cs" "byte c0 < 0x80" "DecodeRune s = (byte c0, 1)"
  | c0 cs where "s = c0 # cs" "0x80 \<le> byte c0" "DecodeRune s = (RuneError, 1)"
  | c0 c1 cs where "s = c0 # c1 # cs" "0xC2 \<le> byte c0" "byte c0 < 0xE0" "accepted (byte c0) c1"
      "DecodeRune s = ((byte c0 mod 32) * 64 + byte c1 mod 64, 2)"
  | c0 c1 c2 cs where "s = c0 # c1 # c2 # cs" "0xE0 \<le> byte c0" "byte c0 < 0xF0"
      "accepted (byte c0) c1" "continuation c2"
      "DecodeRune s = ((byte c0 mod 16) * 4096 + (byte c1 mod 64) * 64 + byte c2 mod 64, 3)"
  | c0 c1 c2 c3 cs where "s = c0 # c1 # c2 # c3 # cs" "0xF0 \<le> byte c0" "byte c0 \<le> 0xF4"
      "accepted (byte c0) c1" "continuation c2" "continuation c3"
      "DecodeRune s = ((byte c0 mod 8) * 262144 + (byte c1 mod 64) * 4096
                        + (byte c2 mod 64) * 64 + byte c3 mod 64, 4)"
proof (cases s)
  case Nil
  then show ?thesis using that(1) by simp
next
  case (Cons c0 cs)
  show ?thesis
  proof (cases "byte c0 < 0x80")
    case True
    then show ?thesis using that(2) Cons by (simp add: DecodeRune_def)
  next
    case hi: False
    show ?thesis
    proof (cases "DecodeRune s = (RuneError, 1)")
      case True
      then show ?thesis using that(3) Cons hi by simp
    next
      case False
      then have lead: "0xC2 \<le> byte c0" "byte c0 \<le> 0xF4"
        using Cons hi by (auto simp: DecodeRune_def Let_def split: if_splits)
      consider "byte c0 < 0xE0" | "0xE0 \<le> byte c0" "byte c0 < 0xF0" | "0xF0 \<le> byte c0"
        by linarith
      then show ?thesis
      proof cases
        case 1
        then show ?thesis
          using False Cons hi lead that(4)
          by (auto simp: DecodeRune_def Let_def split: if_splits list.splits)
      next
        case 2
        then show ?thesis
          using False Cons hi lead that(5)
          by (auto simp: DecodeRune_def Let_def split: if_splits list.splits)
      next
        case 3
        then show ?thesis
          using False Cons hi lead that(6)
          by (auto simp: DecodeRune_def Let_def split: if_splits list.splits)
      qed
    qed
  qed
qed

lemma EncodeRune_DecodeRune:
  assumes "s \<noteq> []" "DecodeRune s \<noteq> (RuneError, 1)"
  shows "EncodeRune (fst (DecodeRune s)) = take (snd (DecodeRune s)) s"
proof (cases s rule: DecodeRune_cases)
  case empty
  with assms show ?thesis by simp
next
  case (ascii c0 cs)
  then show ?thesis by (simp add: EncodeRune_def char_of_byte)
next
  case (invalid c0 cs)
  with assms show ?thesis by simp
next
  case (two c0 c1 cs)
  note c = acceptRange_cont [OF two(4)]
  note h = two_bytes [OF two(2,3) c [THEN conjunct1] c [THEN conjunct2]]
  have big: "\<not> byte c0 mod 32 * 64 + byte c1 mod 64 < 0x80"
    using h(1) by simp
  note d = two(5) [unfolded two(1)]
  show ?thesis
    unfolding two(1) d EncodeRune_def fst_conv snd_conv
    using h(2-4) big by (simp add: char_of_byte)
next
  case (three c0 c1 c2 cs)
  note c = acceptRange_cont [OF three(4)] and b = accepted_bounds [OF three(4)]
  from three(5) have c2: "0x80 \<le> byte c2" "byte c2 \<le> 0xBF"
    by (simp_all add: continuation_def)
  let ?r = "byte c0 mod 16 * 4096 + byte c1 mod 64 * 64 + byte c2 mod 64"
  note h = three_bytes [OF three(2,3) c [THEN conjunct1] c [THEN conjunct2] c2
      b [THEN conjunct1] b [THEN conjunct2, THEN conjunct1]]
  have big: "\<not> ?r < 0x80" "\<not> ?r < 0x800"
    "\<not> ((0xD800 \<le> ?r \<and> ?r \<le> 0xDFFF) \<or> 0x10FFFF < ?r)"
    using h(1,2,3) by auto
  have "EncodeRune ?r =
          [char_of (0xE0 + ?r div 4096), char_of (0x80 + ?r div 64 mod 64),
           char_of (0x80 + ?r mod 64)]"
    unfolding EncodeRune_def by (simp only: big h(2) if_False if_True)
  also have "\<dots> = [c0, c1, c2]"
    by (simp only: h(4-6) char_of_byte)
  finally show ?thesis
    by (simp add: three(6) [unfolded three(1)] three(1))
next
  case (four c0 c1 c2 c3 cs)
  note c = acceptRange_cont [OF four(4)] and b = accepted_bounds [OF four(4)]
  from four(5,6) have cc: "0x80 \<le> byte c2" "byte c2 \<le> 0xBF" "0x80 \<le> byte c3" "byte c3 \<le> 0xBF"
    by (simp_all add: continuation_def)
  note h = four_bytes [OF four(2,3) c [THEN conjunct1] c [THEN conjunct2] cc
      b [THEN conjunct2, THEN conjunct2, THEN conjunct1]
      b [THEN conjunct2, THEN conjunct2, THEN conjunct2]]
  let ?r = "byte c0 mod 8 * 262144 + byte c1 mod 64 * 4096 + byte c2 mod 64 * 64 + byte c3 mod 64"
  have big: "\<not> ?r < 0x80" "\<not> ?r < 0x800" "\<not> ?r < 0x10000"
    "\<not> ((0xD800 \<le> ?r \<and> ?r \<le> 0xDFFF) \<or> 0x10FFFF < ?r)"
    using h(1,2) by auto
  have "EncodeRune ?r =
          [char_of (0xF0 + ?r div 262144), char_of (0x80 + ?r div 4096 mod 64),
           char_of (0x80 + ?r div 64 mod 64), char_of (0x80 + ?r mod 64)]"
    unfolding EncodeRune_def by (simp only: big if_False if_True)
  also have "\<dots> = [c0, c1, c2, c3]"
    by (simp only: h(3-6) char_of_byte)
  finally show ?thesis
    by (simp add: four(7) [unfolded four(1)] four(1))
qed

lemma DecodeRune_prefix:
  assumes "s \<noteq> []" "DecodeRune s \<noteq> (RuneError, 1)"
  shows "DecodeRune (take (snd (DecodeRune s)) s @ x) = DecodeRune s"
proof (cases s rule: DecodeRune_cases)
  case empty
  with assms show ?thesis by simp
next
  case (ascii c0 cs)
  then show ?thesis by (simp add: DecodeRune_def)
next
  case (invalid c0 cs)
  with assms show ?thesis by simp
next
  case (two c0 c1 cs)
  then show ?thesis by (simp add: DecodeRune_def Let_def)
next
  case (three c0 c1 c2 cs)
  then show ?thesis by (simp add: DecodeRune_def Let_def)
next
  case (four c0 c1 c2 c3 cs)
  then show ?thesis by (simp add: DecodeRune_def Let_def)
qed

lemma toValidUTF8_valid: "validUTF8 s \<Longrightarrow> toValidUTF8 s = s"
proof (induction s rule: validUTF8.induct)
  case 1
  then show ?case by simp
next
  case (2 c cs)
  then show ?case
    by (simp add: validUTF8.simps(2) toValidUTF8.simps(2) del: append_take_drop_id)
      (metis append_take_drop_id)
qed

lemma hexVal_hex:
  assumes "k < 16"
  shows "hexVal (hex k) = Some k"
proof -
  from assms have "k = 0 \<or> k = 1 \<or> k = 2 \<or> k = 3 \<or> k = 4 \<or> k = 5 \<or> k = 6 \<or> k = 7 \<or> k = 8
      \<or> k = 9 \<or> k = 10 \<or> k = 11 \<or> k = 12 \<or> k = 13 \<or> k = 14 \<or> k = 15"
    by arith
  then show ?thesis
    by (elim disjE) (simp_all add: hex_def hexVal_def)
qed

lemma unquote_quote: "unquoteBody (dq @ x) = Some ([], x)"
  by (simp add: dq_def unquoteBody.simps)

lemma htmlSafe_plain:
  "htmlSafe c \<Longrightarrow> c \<noteq> CHR 0x22 \<and> c \<noteq> CHR 0x5C \<and> \<not> byte c < 0x20 \<and> byte c < 0x80"
  by (auto simp: htmlSafe_def)

lemma unquote_safe:
  "htmlSafe c \<Longrightarrow> unquoteBody (c # y) = map_option (\<lambda>r. (c # fst r, snd r)) (unquoteBody y)"
  using htmlSafe_plain [of c] by (simp add: unquoteBody.simps)

lemma unquote_u00:
  assumes "byte c < 0x80"
  shows "unquoteBody (bs @ ''u00'' @ [hex (byte c div 16), hex (byte c mod 16)] @ y)
         = map_option (\<lambda>r. (c # fst r, snd r)) (unquoteBody y)"
proof -
  have "byte c div 16 < 16" "byte c mod 16 < 16" using assms by simp_all
  moreover have "hexVal (CHR ''0'') = Some 0" by (simp add: hexVal_def)
  ultimately have "getu4 (''00'' @ [hex (byte c div 16), hex (byte c mod 16)] @ y) = Some (byte c)"
    by (simp add: getu4_def hexVal_hex)
  moreover have "escapedRune (byte c) z = (byte c, 0)" for z
    using assms by (simp add: escapedRune_def)
  moreover have "EncodeRune (byte c) = [c]"
    using assms by (simp add: EncodeRune_def char_of_byte)
  ultimately show ?thesis
    by (simp add: bs_def unquoteBody.simps)
qed

lemma unquote_escapeByte:
  assumes "byte c < 0x80" "\<not> htmlSafe c"
  shows "unquoteBody (escapeByte c @ y) = map_option (\<lambda>r. (c # fst r, snd r)) (unquoteBody y)"
proof -
  consider "c = CHR 0x5C" | "c = CHR 0x22" | "c = CHR 0x08" | "c = CHR 0x0C" | "c = CHR 0x0A"
    | "c = CHR 0x0D" | "c = CHR 0x09"
    | "c \<noteq> CHR 0x5C" "c \<noteq> CHR 0x22" "c \<noteq> CHR 0x08" "c \<noteq> CHR 0x0C" "c \<noteq> CHR 0x0A"
      "c \<noteq> CHR 0x0D" "c \<noteq> CHR 0x09"
    by blast
  then show ?thesis
  proof cases
    case 8
    then have "escapeByte c = bs @ ''u00'' @ [hex (byte c div 16), hex (byte c mod 16)]"
      by (simp add: escapeByte_def)
    then show ?thesis using unquote_u00 [OF assms(1)] by simp
  qed (simp_all add: escapeByte_def bs_def unquoteBody.simps simpleEscape_def)
qed

lemma high_byte_plain:
  "0x80 \<le> byte c \<Longrightarrow> c \<noteq> CHR 0x22 \<and> c \<noteq> CHR 0x5C \<and> \<not> byte c < 0x20 \<and> \<not> byte c < 0x80"
  by (auto simp: byte_def)

lemma unquote_rune:
  assumes "0x80 \<le> byte c" "DecodeRune (c # cs) \<noteq> (RuneError, 1)"
  shows "unquoteBody (take (snd (DecodeRune (c # cs))) (c # cs) @ y)
         = map_option (\<lambda>r. (take (snd (DecodeRune (c # cs))) (c # cs) @ fst r, snd r))
             (unquoteBody y)"
proof -
  let ?n = "snd (DecodeRune (c # cs))"
  have n: "1 \<le> ?n" "?n \<le> length (c # cs)"
    using DecodeRune_size [of "c # cs"] by simp_all
  then obtain z where z: "take ?n (c # cs) = c # z"
    by (cases ?n) auto
  have d: "DecodeRune (c # z @ y) = DecodeRune (c # cs)"
    using DecodeRune_prefix [OF _ assms(2), of y] z by simp
  have e: "EncodeRune (fst (DecodeRune (c # cs))) = c # z"
    using EncodeRune_DecodeRune [OF _ assms(2)] z by simp
  have "length (c # z) = ?n" using n z by (metis length_take min.absorb2)
  then have "drop ?n (c # z @ y) = y" by (metis append_Cons append_eq_conv_conj)
  then show ?thesis
    using high_byte_plain [OF assms(1)] d e z
    by (simp add: unquoteBody.simps(2) [of c "z @ y"])
qed

lemma unquote_separator:
  assumes "DecodeRune s \<noteq> (RuneError, 1)" "s \<noteq> []"
    and "fst (DecodeRune s) = 0x2028 \<or> fst (DecodeRune s) = 0x2029"
  shows "unquoteBody (bs @ ''u202'' @ [hex (fst (DecodeRune s) mod 16)] @ y)
         = map_option (\<lambda>r. (take (snd (DecodeRune s)) s @ fst r, snd r)) (unquoteBody y)"
proof -
  let ?r = "fst (DecodeRune s)"
  have g: "getu4 (''202'' @ [hex (?r mod 16)] @ y) = Some ?r"
    using assms(3) by (auto simp: getu4_def hexVal_def hex_def)
  have "escapedRune ?r z = (?r, 0)" for z
    using assms(3) by (auto simp: escapedRune_def)
  moreover have "EncodeRune ?r = take (snd (DecodeRune s)) s"
    using assms(1,2) by (simp add: EncodeRune_DecodeRune)
  ultimately show ?thesis
    using g by (simp add: bs_def unquoteBody.simps)
qed

lemma unquote_replacement:
  "unquoteBody (bs @ ''ufffd'' @ y)
   = map_option (\<lambda>r. ([CHR 0xEF, CHR 0xBF, CHR 0xBD] @ fst r, snd r)) (unquoteBody y)"
proof -
  have "getu4 (''fffd'' @ y) = Some 0xFFFD"
    by (simp add: getu4_def hexVal_def)
  moreover have "escapedRune 0xFFFD z = (0xFFFD, 0)" for z
    by (simp add: escapedRune_def)
  moreover have "EncodeRune 0xFFFD = [CHR 0xEF, CHR 0xBF, CHR 0xBD]"
    by (simp add: EncodeRune_def char_of_def bit_Suc_0_iff)
  ultimately show ?thesis
    by (simp add: bs_def unquoteBody.simps)
qed

lemma unquote_appendStringBody:
  "unquoteBody (appendStringBody s @ dq @ x) = Some (toValidUTF8 s, x)"
proof (induction s rule: toValidUTF8.induct)
  case 1
  then show ?case by (simp add: unquote_quote)
next
  case (2 c cs)
  let ?n = "snd (DecodeRune (c # cs))"
  show ?case
  proof (cases "DecodeRune (c # cs) = (RuneError, 1)")
    case True
    then have hi: "\<not> byte c < 0x80"
      by (auto simp: DecodeRune_def RuneError_def)
    then show ?thesis
      using True "2.IH"(1) [OF True] unquote_replacement [of "appendStringBody cs @ dq @ x"]
      by (simp add: toValidUTF8.simps(2))
  next
    case ok: False
    from "2.IH"(2) [OF ok]
    have ih: "unquoteBody (appendStringBody (drop ?n (c # cs)) @ dq @ x)
              = Some (toValidUTF8 (drop ?n (c # cs)), x)" .
    have tv: "toValidUTF8 (c # cs) = take ?n (c # cs) @ toValidUTF8 (drop ?n (c # cs))"
      using ok by (simp add: toValidUTF8.simps(2))
    show ?thesis
    proof (cases "byte c < 0x80")
      case True
      then have d: "DecodeRune (c # cs) = (byte c, 1)" by (simp add: DecodeRune_def)
      with ih have ih': "unquoteBody (appendStringBody cs @ dq @ x) = Some (toValidUTF8 cs, x)"
        by simp
      have tv': "toValidUTF8 (c # cs) = c # toValidUTF8 cs" using tv d by simp
      show ?thesis
      proof (cases "htmlSafe c")
        case safe: True
        then show ?thesis using True ih' tv' by (simp add: unquote_safe)
      next
        case False
        then show ?thesis using True ih' tv' by (simp add: unquote_escapeByte)
      qed
    next
      case False
      then have hi: "0x80 \<le> byte c" by simp
      show ?thesis
      proof (cases "fst (DecodeRune (c # cs)) = 0x2028 \<or> fst (DecodeRune (c # cs)) = 0x2029")
        case True
        then have "appendStringBody (c # cs) =
            bs @ ''u202'' @ [hex (fst (DecodeRune (c # cs)) mod 16)]
              @ appendStringBody (drop ?n (c # cs))"
          using False ok by simp
        then show ?thesis
          using unquote_separator [OF ok _ True, of "appendStringBody (drop ?n (c # cs)) @ dq @ x"]
            ih tv
          by simp
      next
        case plain: False
        then have "appendStringBody (c # cs) =
            take ?n (c # cs) @ appendStringBody (drop ?n (c # cs))"
          using False ok by simp
        then show ?thesis
          using unquote_rune [OF hi ok, of "appendStringBody (drop ?n (c # cs)) @ dq @ x"] ih tv
          by simp
      qed
    qed
  qed
qed

lemma tokens_space: "jsonSpace c \<Longrightarrow> tokens (c # x) = tokens x"
  by (simp add: tokens.simps)

lemma tokens_punctuation:
  "punctuation c = Some t \<Longrightarrow> tokens (c # x) = map_option ((#) t) (tokens x)"
  by (auto simp: tokens.simps punctuation_def jsonSpace_def split: if_splits)

lemma tokens_string:
  "tokens (appendString s @ x) = map_option ((#) (Str (toValidUTF8 s))) (tokens x)"
  by (simp add: appendString_def dq_def tokens.simps jsonSpace_def
      unquote_appendStringBody [unfolded dq_def, simplified])

lemma tokens_key_Name: "tokens (dq @ ''Name'' @ dq @ x) = map_option ((#) (Str ''Name'')) (tokens x)"
  by (simp add: dq_def tokens.simps jsonSpace_def unquoteBody.simps byte_def)

lemma tokens_key_Secret:
  "tokens (dq @ ''Secret'' @ dq @ x) = map_option ((#) (Str ''Secret'')) (tokens x)"
  by (simp add: dq_def tokens.simps jsonSpace_def unquoteBody.simps byte_def)

lemma tokens_encodeProvider:
  shows "tokens (encodeProvider p @ x) = map_option ((@) (providerTokens p)) (tokens x)"
proof -
  have sp: "jsonSpace (CHR '' '')" "jsonSpace (CHR 0x0A)" by (simp_all add: jsonSpace_def)
  have pu: "punctuation (CHR ''{'') = Some LBrace" "punctuation (CHR ''}'') = Some RBrace"
    "punctuation (CHR '':'') = Some Colon" "punctuation (CHR '','') = Some Comma"
    by (simp_all add: punctuation_def)
  show ?thesis
    unfolding encodeProvider_def nl_def
    by (cases "tokens x") (simp_all add: tokens_space [OF sp(1)] tokens_space [OF sp(2)] tokens_punctuation [OF pu(1)]
        tokens_punctuation [OF pu(2)] tokens_punctuation [OF pu(3)] tokens_punctuation [OF pu(4)]
        tokens_key_Name [simplified] tokens_key_Secret [simplified] tokens_string [simplified]
        providerTokens_def option.map_comp comp_def)
qed

lemma tokens_encodeElements:
  "tokens (encodeElements ps @ x) = map_option ((@) (elementsTokens ps)) (tokens x)"
proof (induction ps rule: encodeElements.induct)
  case 1
  then show ?case by (cases "tokens x") simp_all
next
  case (2 p)
  then show ?case by (simp add: tokens_encodeProvider)
next
  case (3 p q ps)
  have sp: "jsonSpace (CHR 0x0A)" by (simp add: jsonSpace_def)
  have pu: "punctuation (CHR '','') = Some Comma" by (simp add: punctuation_def)
  from 3 show ?case
    by (cases "tokens x")
      (simp_all add: tokens_encodeProvider nl_def tokens_space [OF sp] tokens_punctuation [OF pu]
        option.map_comp comp_def)
qed

lemma tokens_document:
  assumes "ps \<noteq> []"
  shows "tokens (''['' @ nl @ encodeElements ps @ nl @ '']'')
         = Some (LBrack # elementsTokens ps @ [RBrack])"
proof -
  have sp: "jsonSpace (CHR 0x0A)" by (simp add: jsonSpace_def)
  have pu: "punctuation (CHR ''['') = Some LBrack" "punctuation (CHR '']'') = Some RBrack"
    by (simp_all add: punctuation_def)
  have "tokens (nl @ '']'') = Some [RBrack]"
    by (simp add: nl_def tokens_space [OF sp] tokens_punctuation [OF pu(2)] tokens.simps(1))
  then show ?thesis
    by (simp add: nl_def tokens_space [OF sp] tokens_punctuation [OF pu(1)]
        tokens_encodeElements [of ps "CHR 0x0A # '']''", unfolded nl_def, simplified])
qed

lemma element_providerTokens: "element (providerTokens p @ rest) = Some (coerced p, rest)"
  by (simp add: element_def providerTokens_def setField_def asciiLower_def coerced_def)

lemma elements_elementsTokens:
  "ps \<noteq> [] \<Longrightarrow> elements (elementsTokens ps @ RBrack # rest) = Some (map coerced ps, rest)"
proof (induction ps rule: elementsTokens.induct)
  case 1
  then show ?case by simp
next
  case (2 p)
  then show ?case
    by (subst elements.simps) (simp add: element_providerTokens)
next
  case (3 p q ps)
  then show ?case
    by (subst elements.simps) (simp add: element_providerTokens)
qed

lemma Unmarshal_MarshalIndent:
  "\<exists>data. json_MarshalIndent ps = Inr data \<and> json_Unmarshal data = Inr (map coerced ps)"
proof (cases "ps = []")
  case True
  have pu: "punctuation (CHR ''['') = Some LBrack" "punctuation (CHR '']'') = Some RBrack"
    by (simp_all add: punctuation_def)
  have "tokens ''[]'' = Some [LBrack, RBrack]"
    by (simp add: tokens_punctuation [OF pu(1)] tokens_punctuation [OF pu(2)] tokens.simps(1))
  then show ?thesis using True by (simp add: json_MarshalIndent_def json_Unmarshal_def)
next
  case False
  then obtain ts where ts: "elementsTokens ps @ [RBrack] = ts" "ts \<noteq> [RBrack]"
    by (cases ps rule: elementsTokens.cases) (auto simp: providerTokens_def)
  have "elements ts = Some (map coerced ps, [])"
    using elements_elementsTokens [OF False, of "[]"] ts by simp
  then show ?thesis
    using False tokens_document [OF False] ts
    by (auto simp: json_MarshalIndent_def json_Unmarshal_def split: list.splits token.splits)
qed

lemma coerced_valid:
  "list_all (\<lambda>p. validUTF8 (Name p) \<and> validUTF8 (Secret p)) ps \<Longrightarrow> map coerced ps = ps"
  by (induction ps) (simp_all add: coerced_def toValidUTF8_valid)

lemma load_after_save:
  assumes saved: "saveProviders lib ps filePath os = (None, os')"
    and readable: "failReadFile os filePath = None"
  shows "loadProviders os' filePath = Inr (map coerced ps)"
proof -
  obtain data where data: "json_MarshalIndent ps = Inr data"
    "json_Unmarshal data = Inr (map coerced ps)"
    using Unmarshal_MarshalIndent by blast
  let ?os1 = "os\<lparr>calls := calls os @ [MkdirAll (filepath_Dir lib filePath)]\<rparr>"
  from saved data(1) have w: "os_WriteFile ?os1 filePath data = (None, os')"
    by (auto simp: saveProviders_def os_MkdirAll_def split: option.splits prod.splits)
  then have os': "files os' filePath = Some data" "failReadFile os' = failReadFile os"
    by (auto simp: os_WriteFile_def split: option.splits prod.splits)
  then have "\<not> IsNotExist (os_Stat os' filePath)"
    by (simp add: IsNotExist_def os_Stat_def split: option.splits)
  moreover have "os_ReadFile os' filePath = Inr data"
    using os' readable by (simp add: os_ReadFile_def)
  ultimately show ?thesis
    using data(2) by (simp add: loadProviders_def)
qed

lemma toValidUTF8_example:
  "toValidUTF8 [CHR 0xFF] = [CHR 0xEF, CHR 0xBF, CHR 0xBD]"
  "toValidUTF8 ''JBSWY3DPEHPK3PXP'' = ''JBSWY3DPEHPK3PXP''"
  by (simp_all add: toValidUTF8.simps(2) DecodeRune_def byte_def RuneError_def)

lemma validUTF8_example: "validUTF8 ''work''" "validUTF8 ''JBSWY3DPEHPK3PXP''"
  by (simp_all add: validUTF8.simps(2) DecodeRune_def byte_def RuneError_def)

lemma save_example:
  "fst (saveProviders exampleLib ps ProvidersFilePath exampleOS) = None"
  by (simp add: saveProviders_def os_MkdirAll_def json_MarshalIndent_def os_WriteFile_def
      exampleOS_def)

lemma MarshalIndent_example:
  "json_MarshalIndent [\<lparr>Name = ''a<b'', Secret = ''JBSWY3DPEHPK3PXP''\<rparr>] =
     Inr (''['' @ nl @
          ''  {'' @ nl @
          ''    '' @ dq @ ''Name'' @ dq @ '': '' @ dq @ ''a'' @ bs @ ''u003cb'' @ dq @ '','' @ nl @
          ''    '' @ dq @ ''Secret'' @ dq @ '': '' @ dq @ ''JBSWY3DPEHPK3PXP'' @ dq @ nl @
          ''  }'' @ nl @
          '']'')"
  by (simp add: json_MarshalIndent_def encodeProvider_def appendString_def htmlSafe_def byte_def
      escapeByte_def hex_def)

text \<open>
  C6. The claim: for every list of providers, saving it and then loading it yields the
  identical list.

  The encoder writes a valid UTF-8 document: each byte of a name or secret that does not
  start a well-formed UTF-8 character is written as the escape of U+FFFD. A provider
  whose name is the single byte \<open>0xFF\<close> is saved without error and comes back with the
  three bytes of U+FFFD as its name.
\<close>

theorem save_load_invalid_utf8_counterexample:
  "fst (saveProviders exampleLib [\<lparr>Name = [CHR 0xFF], Secret = ''JBSWY3DPEHPK3PXP''\<rparr>]
          ProvidersFilePath exampleOS) = None
   \<and> loadProviders
         (snd (saveProviders exampleLib [\<lparr>Name = [CHR 0xFF], Secret = ''JBSWY3DPEHPK3PXP''\<rparr>]
                 ProvidersFilePath exampleOS))
         ProvidersFilePath
       = Inr [\<lparr>Name = [CHR 0xEF, CHR 0xBF, CHR 0xBD], Secret = ''JBSWY3DPEHPK3PXP''\<rparr>]"
proof -
  let ?ps = "[\<lparr>Name = [CHR 0xFF], Secret = ''JBSWY3DPEHPK3PXP''\<rparr>]"
  let ?r = "saveProviders exampleLib ?ps ProvidersFilePath exampleOS"
  have saved: "?r = (None, snd ?r)"
    using save_example [of ?ps] by (metis prod.collapse)
  have "failReadFile exampleOS ProvidersFilePath = None"
    by (simp add: exampleOS_def)
  from load_after_save [OF saved this] save_example [of ?ps]
  show ?thesis by (simp add: coerced_def toValidUTF8_example)
qed

text \<open>
  C6, amended. For every list of providers whose names and secrets are valid UTF-8: when
  \<open>saveProviders\<close> returns no error and the file system does not fail the read,
  \<open>loadProviders\<close> on the same path returns the identical list, the same providers in
  the same order with the same names and secrets.
\<close>

theorem save_load_roundtrip:
  assumes valid: "list_all (\<lambda>p. validUTF8 (Name p) \<and> validUTF8 (Secret p)) ps"
    and saved: "saveProviders lib ps filePath os = (None, os')"
    and readable: "failReadFile os filePath = None"
  shows "loadProviders os' filePath = Inr ps"
  using load_after_save [OF saved readable] coerced_valid [OF valid] by simp

theorem save_load_roundtrip_witness:
  "list_all (\<lambda>p. validUTF8 (Name p) \<and> validUTF8 (Secret p))
     [\<lparr>Name = ''work'', Secret = ''JBSWY3DPEHPK3PXP''\<rparr>]
   \<and> fst (saveProviders exampleLib [\<lparr>Name = ''work'', Secret = ''JBSWY3DPEHPK3PXP''\<rparr>]
            ProvidersFilePath exampleOS) = None
   \<and> failReadFile exampleOS ProvidersFilePath = None
   \<and> loadProviders
         (snd (saveProviders exampleLib [\<lparr>Name = ''work'', Secret = ''JBSWY3DPEHPK3PXP''\<rparr>]
                 ProvidersFilePath exampleOS))
         ProvidersFilePath
       = Inr [\<lparr>Name = ''work'', Secret = ''JBSWY3DPEHPK3PXP''\<rparr>]"
proof -
  let ?ps = "[\<lparr>Name = ''work'', Secret = ''JBSWY3DPEHPK3PXP''\<rparr>]"
  let ?r = "saveProviders exampleLib ?ps ProvidersFilePath exampleOS"
  have valid: "list_all (\<lambda>p. validUTF8 (Name p) \<and> validUTF8 (Secret p)) ?ps"
    by (simp add: validUTF8_example)
  have saved: "?r = (None, snd ?r)"
    using save_example [of ?ps] by (metis prod.collapse)
  have readable: "failReadFile exampleOS ProvidersFilePath = None"
    by (simp add: exampleOS_def)
  from save_load_roundtrip [OF valid saved readable] valid readable save_example [of ?ps]
  show ?thesis by simp
qed

end
